theory Spec2Isabelle
  imports Main
begin

section \<open>Python strings\<close>

text \<open>
  A Python \<^verbatim>\<open>str\<close> is a sequence of Unicode code points. A code point is a natural
  number here, so that the whitespace class of \<^verbatim>\<open>\s\<close> and of \<^verbatim>\<open>str.strip\<close> is the one
  Python uses and not only its ASCII part. \<open>ustr\<close> reads a literal.
\<close>

type_synonym pystr = "nat list"

definition ustr :: "string \<Rightarrow> pystr" where
  "ustr s = map of_char s"

text \<open>
  \<^verbatim>\<open>str.isspace\<close> on one character, which is also what \<^verbatim>\<open>\s\<close> matches in a \<^verbatim>\<open>str\<close>
  pattern: TAB..CR, FS..US, space, NEL, NBSP, Ogham space, the en/em spaces, the line
  and paragraph separators, narrow NBSP, medium mathematical space, ideographic space.
\<close>

definition str_isspace :: "nat \<Rightarrow> bool" where
  "str_isspace c =
     ((9 \<le> c \<and> c \<le> 13) \<or> (28 \<le> c \<and> c \<le> 32) \<or> c = 133 \<or> c = 160 \<or> c = 5760
      \<or> (8192 \<le> c \<and> c \<le> 8202) \<or> c = 8232 \<or> c = 8233 \<or> c = 8239 \<or> c = 8287
      \<or> c = 12288)"

text \<open>The class \<^verbatim>\<open>[A-Za-z]\<close>.\<close>

definition ascii_letter :: "nat \<Rightarrow> bool" where
  "ascii_letter c = ((65 \<le> c \<and> c \<le> 90) \<or> (97 \<le> c \<and> c \<le> 122))"

text \<open>\<^verbatim>\<open>s.replace(old, new)\<close> for a pattern \<open>old\<close> and a replacement \<open>new\<close> of one character each.\<close>

definition str_replace :: "nat \<Rightarrow> nat \<Rightarrow> pystr \<Rightarrow> pystr" where
  "str_replace old new s = map (\<lambda>c. if c = old then new else c) s"

text \<open>\<^verbatim>\<open>re.sub(r'[^A-Za-z\s]', '', s)\<close>: every character outside the class is deleted.\<close>

definition sub_non_letters :: "pystr \<Rightarrow> pystr" where
  "sub_non_letters s = filter (\<lambda>c. ascii_letter c \<or> str_isspace c) s"

text \<open>\<^verbatim>\<open>re.sub(r'\s+', ' ', s)\<close>: every maximal run of whitespace becomes one space.\<close>

function sub_whitespace_runs :: "pystr \<Rightarrow> pystr" where
  "sub_whitespace_runs [] = []"
| "sub_whitespace_runs (c # cs) =
     (if str_isspace c then 32 # sub_whitespace_runs (dropWhile str_isspace cs)
      else c # sub_whitespace_runs cs)"
  by pat_completeness auto
termination
  by (relation "measure length") (auto simp: le_imp_less_Suc length_dropWhile_le)

text \<open>\<^verbatim>\<open>s.strip()\<close>: whitespace is removed at both ends.\<close>

definition str_strip :: "pystr \<Rightarrow> pystr" where
  "str_strip s = rev (dropWhile str_isspace (rev (dropWhile str_isspace s)))"

text \<open>\<^verbatim>\<open>s.split(sep)\<close> for a separator of one character: \<^verbatim>\<open>''.split(' ')\<close> is \<^verbatim>\<open>['']\<close>.\<close>

fun str_split :: "nat \<Rightarrow> pystr \<Rightarrow> pystr list" where
  "str_split sep [] = [[]]"
| "str_split sep (c # cs) =
     (if c = sep then [] # str_split sep cs
      else (case str_split sep cs of
              [] \<Rightarrow> [[c]]
            | w # ws \<Rightarrow> (c # w) # ws))"

text \<open>\<^verbatim>\<open>sep.join(words)\<close>.\<close>

fun str_join :: "pystr \<Rightarrow> pystr list \<Rightarrow> pystr" where
  "str_join sep [] = []"
| "str_join sep [w] = w"
| "str_join sep (w # ws) = w @ sep @ str_join sep ws"

text \<open>
  \<^verbatim>\<open>str.upper\<close> and \<^verbatim>\<open>str.lower\<close>, character by character. They are Python's on ASCII,
  and leave every other code point alone; in \<open>parse_handwriting\<close> only ASCII letters
  reach them (lemma \<open>words_are_letters\<close> below).
\<close>

definition chr_upper :: "nat \<Rightarrow> nat" where
  "chr_upper c = (if 97 \<le> c \<and> c \<le> 122 then c - 32 else c)"

definition chr_lower :: "nat \<Rightarrow> nat" where
  "chr_lower c = (if 65 \<le> c \<and> c \<le> 90 then c + 32 else c)"

definition str_upper :: "pystr \<Rightarrow> pystr" where
  "str_upper s = map chr_upper s"

definition str_lower :: "pystr \<Rightarrow> pystr" where
  "str_lower s = map chr_lower s"

section \<open>Task 1: parse_handwriting\<close>

text \<open>The element of the list comprehension: \<^verbatim>\<open>w[:1].upper() + w[1:].lower() if w else ''\<close>.\<close>

definition capitalise :: "pystr \<Rightarrow> pystr" where
  "capitalise w = (if w \<noteq> [] then str_upper (take 1 w) @ str_lower (drop 1 w) else [])"

text \<open>\<open>None\<close> is Python's \<^verbatim>\<open>None\<close>, the rejection.\<close>

definition parse_handwriting :: "pystr \<Rightarrow> pystr option" where
  "parse_handwriting recipeName =
     (let s = str_replace (of_char CHR ''_'') 32 (str_replace (of_char CHR ''-'') 32 recipeName);
          s = sub_non_letters s;
          s = str_strip (sub_whitespace_runs s)
      in if length s = 0 then None
         else Some (str_join (ustr '' '') (map capitalise (str_split 32 s))))"

section \<open>JSON values, entries and responses\<close>

text \<open>
  What \<^verbatim>\<open>request.get_json(silent=True)\<close> hands to the handler: \<open>JNull\<close> is \<^verbatim>\<open>None\<close>
  (also the answer to a body that is not JSON), a \<open>JFloat\<close> is a \<^verbatim>\<open>float\<close>, kept by its
  literal since no handler reads its value, and a \<open>JObj\<close> is a \<^verbatim>\<open>dict\<close>, the list of its
  items (\<open>map_of\<close> is the dict a list stands for).
\<close>

datatype json =
    JNull
  | JBool bool
  | JInt int
  | JFloat string
  | JStr pystr
  | JList "json list"
  | JObj "(pystr \<times> json) list"

text \<open>\<^verbatim>\<open>isinstance(x, dict)\<close>, \<^verbatim>\<open>isinstance(x, list)\<close>, \<^verbatim>\<open>isinstance(x, str)\<close>.\<close>

fun is_dict :: "json \<Rightarrow> bool" where
  "is_dict (JObj kvs) = True"
| "is_dict _ = False"

fun is_list :: "json \<Rightarrow> bool" where
  "is_list (JList xs) = True"
| "is_list _ = False"

fun is_str :: "json \<Rightarrow> bool" where
  "is_str (JStr s) = True"
| "is_str _ = False"

text \<open>\<^verbatim>\<open>isinstance(x, int)\<close>: \<^verbatim>\<open>bool\<close> is a subclass of \<^verbatim>\<open>int\<close>, so \<^verbatim>\<open>True\<close> and \<^verbatim>\<open>False\<close> pass.\<close>

fun is_int :: "json \<Rightarrow> bool" where
  "is_int (JInt i) = True"
| "is_int (JBool b) = True"
| "is_int _ = False"

text \<open>
  The value behind a test that has passed. \<open>int_of\<close> reads \<^verbatim>\<open>True\<close> as 1 and \<^verbatim>\<open>False\<close>
  as 0, which is how Python compares and multiplies them. The last equations are never
  reached: every use stands behind its \<open>isinstance\<close> test.
\<close>

fun int_of :: "json \<Rightarrow> int" where
  "int_of (JInt i) = i"
| "int_of (JBool b) = (if b then 1 else 0)"
| "int_of _ = 0"

fun str_of :: "json \<Rightarrow> pystr" where
  "str_of (JStr s) = s"
| "str_of _ = []"

fun list_of :: "json \<Rightarrow> json list" where
  "list_of (JList xs) = xs"
| "list_of _ = []"

text \<open>\<^verbatim>\<open>d.get(key)\<close>: \<^verbatim>\<open>None\<close> for a key that is absent.\<close>

fun dict_get :: "json \<Rightarrow> pystr \<Rightarrow> json" where
  "dict_get (JObj kvs) k = (case map_of kvs k of None \<Rightarrow> JNull | Some v \<Rightarrow> v)"
| "dict_get _ k = JNull"

text \<open>The dataclasses. A \<^verbatim>\<open>bool\<close> stored in an \<^verbatim>\<open>int\<close> field is held as the integer it equals.\<close>

record RequiredItem =
  name :: pystr
  quantity :: int

text \<open>
  The values of the \<open>cookbook\<close> dict. Its annotation is \<^verbatim>\<open>Union[Recipe, Ingredient]\<close>, which
  Python does not enforce: \<open>CookbookEntry\<close> is an instance of the base class itself, an
  object that is neither a \<^verbatim>\<open>Recipe\<close> nor an \<^verbatim>\<open>Ingredient\<close>. The first field is \<^verbatim>\<open>name\<close>.
\<close>

datatype entry =
    CookbookEntry pystr
  | Recipe pystr "RequiredItem list"
  | Ingredient pystr int

type_synonym cookbook = "pystr \<rightharpoonup> entry"

text \<open>A Flask response: the body and the status. \<open>Text\<close> is a plain string, \<open>Json\<close> is \<^verbatim>\<open>jsonify(...)\<close>.\<close>

datatype body = Text pystr | Json json

type_synonym response = "body \<times> nat"

definition bad_request :: response where
  "bad_request = (Text [], 400)"

section \<open>Task 2: create_entry\<close>

text \<open>
  The loop over \<^verbatim>\<open>required_items\<close>, with its two variables \<^verbatim>\<open>seen_names\<close> and
  \<^verbatim>\<open>parsed_items\<close>. \<open>None\<close> is a \<^verbatim>\<open>return '', 400\<close> from inside the loop.
\<close>

fun parse_required_items ::
  "json list \<Rightarrow> pystr set \<Rightarrow> RequiredItem list \<Rightarrow> RequiredItem list option" where
  "parse_required_items [] seen_names parsed_items = Some parsed_items"
| "parse_required_items (item # rest) seen_names parsed_items =
     (if \<not> is_dict item then None
      else
        let item_name = dict_get item (ustr ''name'');
            qty = dict_get item (ustr ''quantity'')
        in
          if \<not> is_str item_name \<or> length (str_strip (str_of item_name)) = 0 then None
          else if \<not> is_int qty then None
          else if str_of item_name \<in> seen_names then None
          else parse_required_items rest (insert (str_of item_name) seen_names)
                 (parsed_items @ [\<lparr>name = str_of item_name, quantity = int_of qty\<rparr>]))"

text \<open>
  The handler, as a function of the global \<open>cookbook\<close> and the request body, returning
  the response and the cookbook it leaves. No statement of the \<^verbatim>\<open>try\<close> block raises on
  these values, so the \<^verbatim>\<open>except\<close> branch has no case of its own.
\<close>

definition create_entry :: "cookbook \<Rightarrow> json \<Rightarrow> response \<times> cookbook" where
  "create_entry cookbook data =
     (if \<not> is_dict data then (bad_request, cookbook)
      else
        let entry = (if is_dict (dict_get data (ustr ''entry''))
                     then dict_get data (ustr ''entry'') else data)
        in
          if \<not> is_dict entry then (bad_request, cookbook)
          else
            let entry_type = dict_get entry (ustr ''type'');
                nm = dict_get entry (ustr ''name'')
            in
              if entry_type \<notin> {JStr (ustr ''recipe''), JStr (ustr ''ingredient'')}
              then (bad_request, cookbook)
              else if \<not> is_str nm \<or> length (str_strip (str_of nm)) = 0
              then (bad_request, cookbook)
              else if str_of nm \<in> dom cookbook
              then (bad_request, cookbook)
              else if entry_type = JStr (ustr ''ingredient'')
              then
                let cook_time = dict_get entry (ustr ''cookTime'')
                in
                  if \<not> is_int cook_time \<or> int_of cook_time < 0
                  then (bad_request, cookbook)
                  else ((Json (JObj []), 200),
                        cookbook(str_of nm \<mapsto> Ingredient (str_of nm) (int_of cook_time)))
              else
                let required_items = dict_get entry (ustr ''requiredItems'')
                in
                  if \<not> is_list required_items then (bad_request, cookbook)
                  else
                    (case parse_required_items (list_of required_items) {} [] of
                       None \<Rightarrow> (bad_request, cookbook)
                     | Some parsed_items \<Rightarrow>
                         ((Json (JObj []), 200),
                          cookbook(str_of nm \<mapsto> Recipe (str_of nm) parsed_items))))"

text \<open>The stores that entry creation can build, from the empty cookbook of a fresh process.\<close>

inductive reachable :: "cookbook \<Rightarrow> bool" where
  initial: "reachable Map.empty"
| created: "reachable cb \<Longrightarrow> create_entry cb data = (resp, cb') \<Longrightarrow> reachable cb'"

section \<open>Task 3: summary\<close>

text \<open>
  What \<^verbatim>\<open>_expand_to_ingredients\<close> and \<^verbatim>\<open>jsonify\<close> can raise. \<open>RecursionError\<close> is the
  interpreter's: the function has no depth or visit counter of its own, and CPython raises
  it when a call would exceed the recursion limit.
\<close>

datatype error = KeyError string | ValueError string | RecursionError

text \<open>
  \<^verbatim>\<open>acc[k] = acc.get(k, 0) + m\<close> on a dict, which keeps its keys in insertion order: a key
  already there keeps its place, a new one goes last.
\<close>

fun acc_add :: "pystr \<Rightarrow> int \<Rightarrow> (pystr \<times> int) list \<Rightarrow> (pystr \<times> int) list" where
  "acc_add k m [] = [(k, 0 + m)]"
| "acc_add k m ((k', v) # rest) =
     (if k' = k then (k', v + m) # rest else (k', v) # acc_add k m rest)"

text \<open>
  The interpreter's recursion counter. A call of a Python function takes one unit for as
  long as its frame lives. A call made from inside the body to a builtin
  (\<^verbatim>\<open>isinstance\<close>, \<^verbatim>\<open>acc.get\<close>) or to an exception class (\<^verbatim>\<open>KeyError(...)\<close>) can take
  units from the same counter while it runs: CPython 3.11 takes one for a call it has not
  specialised yet and none for one it has, so the answer changes from call to call.
  \<open>overhead k\<close> is what the \<open>k\<close>-th such call takes, counted by \<open>clk\<close>; with \<open>depth\<close> units
  left inside the frame that call raises \<open>RecursionError\<close> when \<open>depth < overhead k\<close>.
\<close>

definition call_raises :: "(nat \<Rightarrow> nat) \<Rightarrow> nat \<Rightarrow> nat \<Rightarrow> bool" where
  "call_raises overhead depth clk = (depth < overhead clk)"

text \<open>
  \<open>expand_to_ingredients\<close> is \<^verbatim>\<open>_expand_to_ingredients\<close>, \<open>expand_required_items\<close> its
  \<^verbatim>\<open>for\<close> loop with the running \<^verbatim>\<open>total\<close> (\<open>tot\<close>). The second argument is the number of
  units the counter still has: a call with none left raises \<open>RecursionError\<close>, and
  inside the frame one unit less is left. The calls the body makes are, in order:
  \<^verbatim>\<open>KeyError(...)\<close> for a missing name; else \<^verbatim>\<open>isinstance(entry, Ingredient)\<close>, then
  \<^verbatim>\<open>acc.get\<close> for an ingredient, or \<^verbatim>\<open>isinstance(entry, Recipe)\<close> and, for each required
  item, \<^verbatim>\<open>isinstance(req.quantity, int)\<close> before the recursive call, or
  \<^verbatim>\<open>ValueError(...)\<close> at the end. The dict \<^verbatim>\<open>acc\<close> is mutated in place, so it is returned
  with an exception as well as with a value, and so is the count of calls. The outcome of
  \<^verbatim>\<open>isinstance(req.quantity, int)\<close> is decided by the type of the field.
\<close>

fun expand_to_ingredients ::
    "(nat \<Rightarrow> nat) \<Rightarrow> nat \<Rightarrow> cookbook \<Rightarrow> pystr \<Rightarrow> int \<Rightarrow> (pystr \<times> int) list \<Rightarrow> nat
      \<Rightarrow> (error + int) \<times> (pystr \<times> int) list \<times> nat"
  and expand_required_items ::
    "(nat \<Rightarrow> nat) \<Rightarrow> nat \<Rightarrow> cookbook \<Rightarrow> RequiredItem list \<Rightarrow> int \<Rightarrow> int
      \<Rightarrow> (pystr \<times> int) list \<Rightarrow> nat
      \<Rightarrow> (error + int) \<times> (pystr \<times> int) list \<times> nat" where
  "expand_to_ingredients overhead 0 cookbook entry_name multiplier acc clk =
     (Inl RecursionError, acc, clk)"
| "expand_to_ingredients overhead (Suc depth) cookbook entry_name multiplier acc clk =
     (case cookbook entry_name of
        None \<Rightarrow>
          if call_raises overhead depth clk then (Inl RecursionError, acc, clk + 1)
          else (Inl (KeyError ''missing entry''), acc, clk + 1)
      | Some entry \<Rightarrow>
          if call_raises overhead depth clk then (Inl RecursionError, acc, clk + 1)
          else
            (case entry of
               Ingredient nm cook_time \<Rightarrow>
                 if call_raises overhead depth (clk + 1) then (Inl RecursionError, acc, clk + 2)
                 else (Inr (cook_time * multiplier), acc_add nm multiplier acc, clk + 2)
             | Recipe nm required_items \<Rightarrow>
                 if call_raises overhead depth (clk + 1) then (Inl RecursionError, acc, clk + 2)
                 else expand_required_items overhead depth cookbook required_items
                        multiplier 0 acc (clk + 2)
             | CookbookEntry nm \<Rightarrow>
                 if call_raises overhead depth (clk + 1) then (Inl RecursionError, acc, clk + 2)
                 else if call_raises overhead depth (clk + 2)
                 then (Inl RecursionError, acc, clk + 3)
                 else (Inl (ValueError ''unknown entry type''), acc, clk + 3)))"
| "expand_required_items overhead depth cookbook [] multiplier tot acc clk = (Inr tot, acc, clk)"
| "expand_required_items overhead depth cookbook (req # rest) multiplier tot acc clk =
     (if call_raises overhead depth clk then (Inl RecursionError, acc, clk + 1)
      else
        (case expand_to_ingredients overhead depth cookbook (name req)
                (multiplier * quantity req) acc (clk + 1) of
           (Inl e, acc', clk') \<Rightarrow> (Inl e, acc', clk')
         | (Inr t, acc', clk') \<Rightarrow>
             expand_required_items overhead depth cookbook rest multiplier (tot + t) acc' clk'))"

text \<open>
  \<^verbatim>\<open>jsonify\<close>, as far as the handler can see it: the JSON text of an \<^verbatim>\<open>int\<close> is made by
  \<^verbatim>\<open>int.__repr__\<close>, which raises \<^verbatim>\<open>ValueError\<close> for a number of more than 4300 decimal
  digits (CPython's default \<^verbatim>\<open>sys.int_max_str_digits\<close>).
\<close>

definition int_max_str_digits :: nat where
  "int_max_str_digits = 4300"

definition too_long :: "int \<Rightarrow> bool" where
  "too_long x = (10 ^ int_max_str_digits \<le> \<bar>x\<bar>)"

fun long_int :: "json \<Rightarrow> bool" where
  "long_int (JInt x) = too_long x"
| "long_int (JList xs) = list_ex long_int xs"
| "long_int (JObj kvs) = list_ex (\<lambda>kv. long_int (snd kv)) kvs"
| "long_int _ = False"

definition jsonify :: "json \<Rightarrow> error + body" where
  "jsonify x =
     (if long_int x then Inl (ValueError ''Exceeds the limit for integer string conversion'')
      else Inr (Json x))"

text \<open>
  The handler: \<open>overhead\<close> and \<open>limit\<close> are the interpreter's, \<open>limit\<close> being the units the
  counter leaves to \<^verbatim>\<open>_expand_to_ingredients\<close> at its first call; \<open>arg\<close> is
  \<^verbatim>\<open>request.args.get('name', type=str)\<close>. The handler's other calls are not recursive and
  are taken to have the room they need, as in \<open>create_entry\<close>. Every exception is caught
  and answered with 400. The cookbook is returned as it was received: no statement of
  the handler or of \<^verbatim>\<open>_expand_to_ingredients\<close> assigns to it.
\<close>

definition summary ::
    "(nat \<Rightarrow> nat) \<Rightarrow> nat \<Rightarrow> cookbook \<Rightarrow> pystr option \<Rightarrow> response \<times> cookbook" where
  "summary overhead limit cookbook arg =
     (case arg of
        None \<Rightarrow> (bad_request, cookbook)
      | Some nm \<Rightarrow>
          if nm = [] \<or> length (str_strip nm) = 0 then (bad_request, cookbook)
          else
            (case cookbook nm of
               None \<Rightarrow> (bad_request, cookbook)
             | Some (Ingredient n c) \<Rightarrow> (bad_request, cookbook)
             | Some (CookbookEntry n) \<Rightarrow> (bad_request, cookbook)
             | Some (Recipe n items) \<Rightarrow>
                 (case expand_to_ingredients overhead limit cookbook nm 1 [] 0 of
                    (Inl e, acc, clk) \<Rightarrow> (bad_request, cookbook)
                  | (Inr total_time, acc, clk) \<Rightarrow>
                      (case jsonify (JObj
                          [(ustr ''name'', JStr nm),
                           (ustr ''cookTime'', JInt total_time),
                           (ustr ''ingredients'',
                            JList (map (\<lambda>(ing_name, qty).
                                     JObj [(ustr ''name'', JStr ing_name),
                                           (ustr ''quantity'', JInt qty)]) acc))]) of
                         Inl e \<Rightarrow> (bad_request, cookbook)
                       | Inr body \<Rightarrow> ((body, 200), cookbook)))))"

section \<open>The words of the specification about the graph of recipes\<close>

text \<open>\<open>requires cb a b\<close>: recipe \<open>a\<close> requires the name \<open>b\<close>, directly or through other recipes.\<close>

inductive requires :: "cookbook \<Rightarrow> pystr \<Rightarrow> pystr \<Rightarrow> bool" for cb :: cookbook where
  direct: "cb a = Some (Recipe nm items) \<Longrightarrow> req \<in> set items \<Longrightarrow> requires cb a (name req)"
| transitive: "requires cb a b \<Longrightarrow> requires cb b c \<Longrightarrow> requires cb a c"

text \<open>
  The paths from a name down to ingredient leaves, at most \<open>d\<close> entries long, in the order
  of the required items: the quantities along the path, then the leaf's name and cook
  time.
\<close>

fun leaf_paths :: "nat \<Rightarrow> cookbook \<Rightarrow> pystr \<Rightarrow> (int list \<times> pystr \<times> int) list" where
  "leaf_paths 0 cb a = []"
| "leaf_paths (Suc d) cb a =
     (case cb a of
        Some (Ingredient nm cook_time) \<Rightarrow> [([], nm, cook_time)]
      | Some (Recipe nm items) \<Rightarrow>
          concat (map (\<lambda>req. map (\<lambda>(qs, leaf). (quantity req # qs, leaf))
                                (leaf_paths d cb (name req))) items)
      | _ \<Rightarrow> [])"

text \<open>
  \<open>fits d cb a\<close>: every name met from \<open>a\<close> down resolves, and to an ingredient after at
  most \<open>d\<close> entries; so the graph below \<open>a\<close> has no missing name, no cycle, and depth at
  most \<open>d\<close>.
\<close>

fun fits :: "nat \<Rightarrow> cookbook \<Rightarrow> pystr \<Rightarrow> bool" where
  "fits 0 cb a = False"
| "fits (Suc d) cb a =
     (case cb a of
        Some (Ingredient nm cook_time) \<Rightarrow> True
      | Some (Recipe nm items) \<Rightarrow> list_all (\<lambda>req. fits d cb (name req)) items
      | _ \<Rightarrow> False)"

text \<open>
  The accumulator in the words of the specification: \<open>acc_get acc k\<close> is the cumulative
  quantity under \<open>k\<close> (0 when \<open>k\<close> is not there), \<open>first_seen seen xs\<close> is the order in which
  names are first seen when \<open>xs\<close> is read after \<open>seen\<close>, and \<open>leaf_quantity m leaves k\<close> is
  the sum, over the leaves named \<open>k\<close>, of the multiplier \<open>m\<close> at the root times the product
  of the quantities along the path.
\<close>

definition acc_get :: "(pystr \<times> int) list \<Rightarrow> pystr \<Rightarrow> int" where
  "acc_get acc k = (case map_of acc k of None \<Rightarrow> 0 | Some v \<Rightarrow> v)"

fun first_seen :: "'a list \<Rightarrow> 'a list \<Rightarrow> 'a list" where
  "first_seen seen [] = seen"
| "first_seen seen (x # xs) = first_seen (if x \<in> set seen then seen else seen @ [x]) xs"

definition leaf_names :: "(int list \<times> pystr \<times> int) list \<Rightarrow> pystr list" where
  "leaf_names leaves = map (\<lambda>(qs, nm, cook_time). nm) leaves"

definition leaf_quantity :: "int \<Rightarrow> (int list \<times> pystr \<times> int) list \<Rightarrow> pystr \<Rightarrow> int" where
  "leaf_quantity m leaves k =
     sum_list (map (\<lambda>(qs, nm, cook_time). m * prod_list qs)
                   (filter (\<lambda>(qs, nm, cook_time). nm = k) leaves))"

text \<open>
  Two interpreters: one that has specialised none of the calls (each takes a unit), and
  one that has specialised them all.
\<close>

definition cold :: "nat \<Rightarrow> nat" where
  "cold k = 1"

definition warm :: "nat \<Rightarrow> nat" where
  "warm k = 0"

section \<open>Auxiliary definitions for the statements\<close>

text \<open>
  The \<^verbatim>\<open>entry\<close> that \<open>create_entry\<close> works on (the payload, or what it holds under the key
  \<^verbatim>\<open>entry\<close> when that is a dict), the name it carries, and the handler from the line
  that reads \<^verbatim>\<open>entry_type\<close> on; \<open>create_entry_unfold\<close> below puts them back together.
\<close>

definition submitted_entry :: "json \<Rightarrow> json" where
  "submitted_entry data =
     (if is_dict (dict_get data (ustr ''entry'')) then dict_get data (ustr ''entry'') else data)"

definition submitted_name :: "json \<Rightarrow> json" where
  "submitted_name data = dict_get (submitted_entry data) (ustr ''name'')"

definition create_from :: "cookbook \<Rightarrow> json \<Rightarrow> response \<times> cookbook" where
  "create_from cookbook entry =
          (if \<not> is_dict entry then (bad_request, cookbook)
          else
            let entry_type = dict_get entry (ustr ''type'');
                nm = dict_get entry (ustr ''name'')
            in
              if entry_type \<notin> {JStr (ustr ''recipe''), JStr (ustr ''ingredient'')}
              then (bad_request, cookbook)
              else if \<not> is_str nm \<or> length (str_strip (str_of nm)) = 0
              then (bad_request, cookbook)
              else if str_of nm \<in> dom cookbook
              then (bad_request, cookbook)
              else if entry_type = JStr (ustr ''ingredient'')
              then
                let cook_time = dict_get entry (ustr ''cookTime'')
                in
                  if \<not> is_int cook_time \<or> int_of cook_time < 0
                  then (bad_request, cookbook)
                  else ((Json (JObj []), 200),
                        cookbook(str_of nm \<mapsto> Ingredient (str_of nm) (int_of cook_time)))
              else
                let required_items = dict_get entry (ustr ''requiredItems'')
                in
                  if \<not> is_list required_items then (bad_request, cookbook)
                  else
                    (case parse_required_items (list_of required_items) {} [] of
                       None \<Rightarrow> (bad_request, cookbook)
                     | Some parsed_items \<Rightarrow>
                         ((Json (JObj []), 200),
                          cookbook(str_of nm \<mapsto> Recipe (str_of nm) parsed_items))))"

text \<open>The object that \<open>summary\<close> hands to \<^verbatim>\<open>jsonify\<close>.\<close>

definition summary_json :: "pystr \<Rightarrow> int \<Rightarrow> (pystr \<times> int) list \<Rightarrow> json" where
  "summary_json nm total_time acc =
     JObj [(ustr ''name'', JStr nm),
           (ustr ''cookTime'', JInt total_time),
           (ustr ''ingredients'',
            JList (map (\<lambda>(ing_name, q).
                     JObj [(ustr ''name'', JStr ing_name),
                           (ustr ''quantity'', JInt q)]) acc))]"

text \<open>
  What one path of \<open>leaf_paths\<close> contributes when the multiplier at the root is \<open>m\<close>: to
  the total, and to the accumulator. \<open>item_paths\<close> are the paths through a list of
  required items.
\<close>

definition path_time :: "int \<Rightarrow> int list \<times> pystr \<times> int \<Rightarrow> int" where
  "path_time m = (\<lambda>(qs, nm, cook_time). cook_time * (m * prod_list qs))"

definition path_add :: "int \<Rightarrow> (pystr \<times> int) list \<Rightarrow> int list \<times> pystr \<times> int \<Rightarrow> (pystr \<times> int) list" where
  "path_add m = (\<lambda>acc (qs, nm, cook_time). acc_add nm (m * prod_list qs) acc)"

definition item_paths :: "nat \<Rightarrow> cookbook \<Rightarrow> RequiredItem list \<Rightarrow> (int list \<times> pystr \<times> int) list" where
  "item_paths d cb items =
     concat (map (\<lambda>req. map (\<lambda>(qs, leaf). (quantity req # qs, leaf))
                                (leaf_paths d cb (name req))) items)"

section \<open>Concrete payloads and cookbooks\<close>

text \<open>A recipe payload that lists Flour twice.\<close>

definition two_flour :: json where
  "two_flour = JObj
     [(ustr ''type'', JStr (ustr ''recipe'')),
      (ustr ''name'', JStr (ustr ''Cake'')),
      (ustr ''requiredItems'', JList
         [JObj [(ustr ''name'', JStr (ustr ''Flour'')), (ustr ''quantity'', JInt 1)],
          JObj [(ustr ''name'', JStr (ustr ''Egg'')), (ustr ''quantity'', JInt 2)],
          JObj [(ustr ''name'', JStr (ustr ''Flour'')), (ustr ''quantity'', JInt 3)]])]"

text \<open>An ingredient and a recipe that both claim the name Egg.\<close>

definition egg_ingredient :: json where
  "egg_ingredient = JObj
     [(ustr ''type'', JStr (ustr ''ingredient'')),
      (ustr ''name'', JStr (ustr ''Egg'')),
      (ustr ''cookTime'', JInt 3)]"

definition egg_recipe :: json where
  "egg_recipe = JObj
     [(ustr ''type'', JStr (ustr ''recipe'')),
      (ustr ''name'', JStr (ustr ''Egg'')),
      (ustr ''requiredItems'', JList [])]"

definition egg_cookbook :: cookbook where
  "egg_cookbook = [ustr ''Egg'' \<mapsto> Ingredient (ustr ''Egg'') 3]"

text \<open>
  A recipe payload named b that carries, under its own key \<^verbatim>\<open>entry\<close>, an ingredient
  payload named a.
\<close>

definition nested_entry :: json where
  "nested_entry = JObj
     [(ustr ''entry'', JObj
         [(ustr ''type'', JStr (ustr ''ingredient'')),
          (ustr ''name'', JStr (ustr ''a'')),
          (ustr ''cookTime'', JInt 1)]),
      (ustr ''type'', JStr (ustr ''recipe'')),
      (ustr ''name'', JStr (ustr ''b'')),
      (ustr ''requiredItems'', JList [])]"

text \<open>R requires 2 of S, S requires 3 of I, and I cooks in 5.\<close>

definition rsi_cookbook :: cookbook where
  "rsi_cookbook =
     [ustr ''R'' \<mapsto> Recipe (ustr ''R'') [\<lparr>name = ustr ''S'', quantity = 2\<rparr>],
      ustr ''S'' \<mapsto> Recipe (ustr ''S'') [\<lparr>name = ustr ''I'', quantity = 3\<rparr>],
      ustr ''I'' \<mapsto> Ingredient (ustr ''I'') 5]"

text \<open>R requires itself, and nothing else.\<close>

definition self_loop :: cookbook where
  "self_loop = [ustr ''R'' \<mapsto> Recipe (ustr ''R'') [\<lparr>name = ustr ''R'', quantity = 1\<rparr>]]"

text \<open>R requires X, which no entry defines, and then itself.\<close>

definition loop_missing :: cookbook where
  "loop_missing =
     [ustr ''R'' \<mapsto> Recipe (ustr ''R'')
        [\<lparr>name = ustr ''X'', quantity = 1\<rparr>, \<lparr>name = ustr ''R'', quantity = 1\<rparr>]]"

text \<open>The payloads that build \<open>self_loop\<close> and \<open>missing_ref\<close> by entry creation.\<close>

definition self_loop_recipe :: json where
  "self_loop_recipe = JObj
     [(ustr ''type'', JStr (ustr ''recipe'')),
      (ustr ''name'', JStr (ustr ''R'')),
      (ustr ''requiredItems'', JList
         [JObj [(ustr ''name'', JStr (ustr ''R'')), (ustr ''quantity'', JInt 1)]])]"

definition missing_ref_recipe :: json where
  "missing_ref_recipe = JObj
     [(ustr ''type'', JStr (ustr ''recipe'')),
      (ustr ''name'', JStr (ustr ''R'')),
      (ustr ''requiredItems'', JList
         [JObj [(ustr ''name'', JStr (ustr ''I'')), (ustr ''quantity'', JInt 2)],
          JObj [(ustr ''name'', JStr (ustr ''X'')), (ustr ''quantity'', JInt 1)]])]"

definition ingredient_I :: json where
  "ingredient_I = JObj
     [(ustr ''type'', JStr (ustr ''ingredient'')),
      (ustr ''name'', JStr (ustr ''I'')),
      (ustr ''cookTime'', JInt 5)]"

text \<open>R requires the ingredient I and then X, which no entry defines.\<close>

definition missing_ref :: cookbook where
  "missing_ref =
     [ustr ''R'' \<mapsto> Recipe (ustr ''R'')
        [\<lparr>name = ustr ''I'', quantity = 2\<rparr>, \<lparr>name = ustr ''X'', quantity = 1\<rparr>],
      ustr ''I'' \<mapsto> Ingredient (ustr ''I'') 5]"

section \<open>Properties of parse_handwriting\<close>

lemma sub_whitespace_runs_all_space:
  assumes "\<forall>c \<in> set s. str_isspace c"
  shows "sub_whitespace_runs s = [] \<or> sub_whitespace_runs s = [32]"
proof (cases s)
  case Nil
  then show ?thesis by simp
next
  case (Cons c cs)
  with assms have dw: "dropWhile str_isspace cs = []" by simp
  from Cons assms show ?thesis by (simp add: dw)
qed

lemma str_strip_space: "str_strip [] = []" "str_strip [32] = []"
  by (simp_all add: str_strip_def str_isspace_def)

lemma no_letter_after_replace:
  "\<not> ascii_letter new \<Longrightarrow> \<forall>c \<in> set s. \<not> ascii_letter c
    \<Longrightarrow> \<forall>c \<in> set (str_replace old new s). \<not> ascii_letter c"
  by (auto simp: str_replace_def)

lemma sub_non_letters_all_space:
  "\<forall>c \<in> set s. \<not> ascii_letter c \<Longrightarrow> \<forall>c \<in> set (sub_non_letters s). str_isspace c"
  by (auto simp: sub_non_letters_def)

lemma set_sub_whitespace_runs:
  "set (sub_whitespace_runs s) \<subseteq> {c \<in> set s. \<not> str_isspace c} \<union> {32}"
proof (induction s rule: sub_whitespace_runs.induct)
  case 1
  then show ?case by simp
next
  case (2 c cs)
  show ?case
  proof (cases "str_isspace c")
    case True
    have "set (dropWhile str_isspace cs) \<subseteq> set cs"
      by (auto dest: set_dropWhileD)
    with 2(1) [OF True] True show ?thesis by auto
  next
    case False
    with 2(2) [OF False] show ?thesis by auto
  qed
qed

lemma set_str_strip: "set (str_strip s) \<subseteq> set s"
proof
  fix c
  assume "c \<in> set (str_strip s)"
  then have "c \<in> set (dropWhile str_isspace (rev (dropWhile str_isspace s)))"
    by (simp add: str_strip_def)
  then have "c \<in> set (rev (dropWhile str_isspace s))" by (rule set_dropWhileD)
  then have "c \<in> set (dropWhile str_isspace s)" by simp
  then show "c \<in> set s" by (rule set_dropWhileD)
qed

lemma set_str_split: "w \<in> set (str_split sep s) \<Longrightarrow> set w \<subseteq> set s - {sep}"
proof (induction s arbitrary: w)
  case Nil
  then show ?case by simp
next
  case (Cons c cs)
  show ?case
  proof (cases "c = sep")
    case True
    with Cons.prems have "w = [] \<or> w \<in> set (str_split sep cs)" by simp
    then show ?thesis
    proof
      assume "w = []"
      then show ?thesis by simp
    next
      assume "w \<in> set (str_split sep cs)"
      from Cons.IH [OF this] show ?thesis by auto
    qed
  next
    case False
    show ?thesis
    proof (cases "str_split sep cs")
      case Nil
      with False Cons.prems have "w = [c]" by simp
      with False show ?thesis by simp
    next
      case (Cons a ws)
      with False Cons.prems have "w = c # a \<or> w \<in> set ws" by simp
      then show ?thesis
      proof
        assume w: "w = c # a"
        from Cons have "a \<in> set (str_split sep cs)" by simp
        from Cons.IH [OF this] w False show ?thesis by auto
      next
        assume "w \<in> set ws"
        with Cons have "w \<in> set (str_split sep cs)" by simp
        from Cons.IH [OF this] show ?thesis by auto
      qed
    qed
  qed
qed

lemma words_are_letters:
  assumes "w \<in> set (str_split 32 (str_strip (sub_whitespace_runs (sub_non_letters s))))"
  shows "\<forall>c \<in> set w. ascii_letter c"
proof
  fix c
  assume "c \<in> set w"
  with set_str_split [OF assms]
  have c: "c \<in> set (str_strip (sub_whitespace_runs (sub_non_letters s)))" "c \<noteq> 32" by auto
  with set_str_strip have "c \<in> set (sub_whitespace_runs (sub_non_letters s))" by blast
  with set_sub_whitespace_runs c(2)
  have "c \<in> set (sub_non_letters s)" "\<not> str_isspace c" by auto
  then show "ascii_letter c" by (auto simp: sub_non_letters_def)
qed

text \<open>
  C6. A raw string with no ASCII letter in it (separators, punctuation, digits and
  whitespace only, or nothing at all) is rejected: parse_handwriting returns None.
\<close>

theorem parse_handwriting_rejects_letterless:
  assumes "\<forall>c \<in> set raw. \<not> ascii_letter c"
  shows "parse_handwriting raw = None"
proof -
  have sp: "\<not> ascii_letter 32" by (simp add: ascii_letter_def)
  let ?r = "str_replace (of_char CHR ''_'') 32 (str_replace (of_char CHR ''-'') 32 raw)"
  have "\<forall>c \<in> set ?r. \<not> ascii_letter c"
    using assms sp by (intro no_letter_after_replace)
  then have "\<forall>c \<in> set (sub_non_letters ?r). str_isspace c"
    by (rule sub_non_letters_all_space)
  then have "sub_whitespace_runs (sub_non_letters ?r) = []
      \<or> sub_whitespace_runs (sub_non_letters ?r) = [32]"
    by (rule sub_whitespace_runs_all_space)
  then have "str_strip (sub_whitespace_runs (sub_non_letters ?r)) = []"
    using str_strip_space by auto
  then show ?thesis
    by (simp add: parse_handwriting_def Let_def)
qed

theorem parse_handwriting_rejects_letterless_witness:
  "parse_handwriting (ustr ''-_ 42 !?'') = None"
  using parse_handwriting_rejects_letterless [of "ustr ''-_ 42 !?''"]
  by (simp add: ustr_def ascii_letter_def)

text \<open>
  C7. parse_handwriting maps "fried-rice_2" to "Fried Rice" (the hyphen and the
  underscore become spaces, the digit is dropped, the trailing space it leaves is
  trimmed, each word is capitalised) and "   chicken   soup " to "Chicken Soup"
  (runs of spaces collapse, the ends are trimmed).
\<close>

theorem parse_handwriting_examples:
  "parse_handwriting (ustr ''fried-rice_2'') = Some (ustr ''Fried Rice'')
   \<and> parse_handwriting (ustr ''   chicken   soup '') = Some (ustr ''Chicken Soup'')"
  by (simp add: parse_handwriting_def ustr_def str_replace_def sub_non_letters_def
      ascii_letter_def str_isspace_def str_strip_def capitalise_def str_upper_def
      str_lower_def chr_upper_def chr_lower_def)

section \<open>Properties of create_entry\<close>

lemma create_entry_unfold:
  "create_entry cb data =
     (if \<not> is_dict data then (bad_request, cb) else create_from cb (submitted_entry data))"
  unfolding create_entry_def create_from_def submitted_entry_def Let_def
  by (rule refl)

lemma create_from_cases:
  "create_from cb entry = (bad_request, cb)
   \<or> (\<exists>e. create_from cb entry = ((Json (JObj []), 200), cb(str_of (dict_get entry (ustr ''name'')) \<mapsto> e))
          \<and> is_str (dict_get entry (ustr ''name''))
          \<and> length (str_strip (str_of (dict_get entry (ustr ''name'')))) \<noteq> 0
          \<and> str_of (dict_get entry (ustr ''name'')) \<notin> dom cb
          \<and> ((\<exists>ct. e = Ingredient (str_of (dict_get entry (ustr ''name''))) ct \<and> 0 \<le> ct)
             \<or> (\<exists>items. e = Recipe (str_of (dict_get entry (ustr ''name''))) items)))"
  unfolding create_from_def Let_def
  by (cases "parse_required_items (list_of (dict_get entry (ustr ''requiredItems''))) {} []") auto

lemma create_from_taken:
  "is_str (dict_get entry (ustr ''name'')) \<Longrightarrow> str_of (dict_get entry (ustr ''name'')) \<in> dom cb
    \<Longrightarrow> create_from cb entry = (bad_request, cb)"
  unfolding create_from_def Let_def
  by simp

lemma parse_required_items_names:
  "parse_required_items items seen parsed = Some r \<Longrightarrow> x \<in> set items
    \<Longrightarrow> is_str (dict_get x (ustr ''name'')) \<and> str_of (dict_get x (ustr ''name'')) \<notin> seen"
proof (induction items arbitrary: seen parsed)
  case Nil
  then show ?case by simp
next
  case (Cons item rest)
  from Cons.prems(1) have ok: "is_str (dict_get item (ustr ''name''))"
      "str_of (dict_get item (ustr ''name'')) \<notin> seen"
    and rec: "parse_required_items rest (insert (str_of (dict_get item (ustr ''name''))) seen)
       (parsed @ [\<lparr>name = str_of (dict_get item (ustr ''name'')),
                   quantity = int_of (dict_get item (ustr ''quantity''))\<rparr>]) = Some r"
    by (simp_all add: Let_def split: if_splits)
  show ?case
  proof (cases "x = item")
    case True
    with ok show ?thesis by simp
  next
    case False
    with Cons.prems(2) have "x \<in> set rest" by simp
    from Cons.IH [OF rec this] show ?thesis by simp
  qed
qed

lemma parse_required_items_distinct:
  "parse_required_items items seen parsed = Some r
    \<Longrightarrow> distinct (map (\<lambda>x. str_of (dict_get x (ustr ''name''))) items)"
proof (induction items arbitrary: seen parsed)
  case Nil
  then show ?case by simp
next
  case (Cons item rest)
  from Cons.prems have rec: "parse_required_items rest (insert (str_of (dict_get item (ustr ''name''))) seen)
       (parsed @ [\<lparr>name = str_of (dict_get item (ustr ''name'')),
                   quantity = int_of (dict_get item (ustr ''quantity''))\<rparr>]) = Some r"
    by (simp add: Let_def split: if_splits)
  have "str_of (dict_get item (ustr ''name''))
      \<notin> (\<lambda>x. str_of (dict_get x (ustr ''name''))) ` set rest"
  proof
    assume "str_of (dict_get item (ustr ''name''))
      \<in> (\<lambda>x. str_of (dict_get x (ustr ''name''))) ` set rest"
    then obtain x where x: "x \<in> set rest"
      and eq: "str_of (dict_get item (ustr ''name'')) = str_of (dict_get x (ustr ''name''))"
      by auto
    from parse_required_items_names [OF rec x] eq show False by simp
  qed
  with Cons.IH [OF rec] show ?case by simp
qed

lemma parse_required_items_duplicate:
  assumes "i < j" "j < length items"
    and "dict_get (items ! i) (ustr ''name'') = dict_get (items ! j) (ustr ''name'')"
  shows "parse_required_items items seen parsed = None"
proof (rule ccontr)
  assume "parse_required_items items seen parsed \<noteq> None"
  then obtain r where "parse_required_items items seen parsed = Some r" by auto
  then have "distinct (map (\<lambda>x. str_of (dict_get x (ustr ''name''))) items)"
    by (rule parse_required_items_distinct)
  moreover from assms have "i < length items" "i \<noteq> j" by auto
  ultimately have "str_of (dict_get (items ! i) (ustr ''name''))
      \<noteq> str_of (dict_get (items ! j) (ustr ''name''))"
    using assms(2) by (simp add: distinct_conv_nth)
  with assms(3) show False by simp
qed

lemma create_from_duplicate:
  assumes "dict_get entry (ustr ''type'') = JStr (ustr ''recipe'')"
    and "dict_get entry (ustr ''requiredItems'') = JList items"
    and "i < j" "j < length items"
    and "dict_get (items ! i) (ustr ''name'') = dict_get (items ! j) (ustr ''name'')"
  shows "create_from cb entry = (bad_request, cb)"
proof -
  have ne: "JStr (ustr ''recipe'') \<noteq> JStr (ustr ''ingredient'')"
    by (simp add: ustr_def)
  have "parse_required_items items {} [] = None"
    using assms(3-5) by (rule parse_required_items_duplicate)
  then show ?thesis
    unfolding create_from_def Let_def using assms(1,2) ne by simp
qed

lemma create_entry_cases:
  "create_entry cb data = (bad_request, cb)
   \<or> (\<exists>k e. create_entry cb data = ((Json (JObj []), 200), cb(k \<mapsto> e))
          \<and> k \<notin> dom cb \<and> str_strip k \<noteq> []
          \<and> ((\<exists>ct. e = Ingredient k ct \<and> 0 \<le> ct) \<or> (\<exists>items. e = Recipe k items)))"
proof (cases "is_dict data")
  case False
  then show ?thesis by (simp add: create_entry_unfold)
next
  case True
  then have eq: "create_entry cb data = create_from cb (submitted_entry data)"
    by (simp add: create_entry_unfold)
  from create_from_cases [of cb "submitted_entry data"] show ?thesis
  proof
    assume "create_from cb (submitted_entry data) = (bad_request, cb)"
    with eq show ?thesis by simp
  next
    assume "\<exists>e. create_from cb (submitted_entry data) =
        ((Json (JObj []), 200), cb(str_of (dict_get (submitted_entry data) (ustr ''name'')) \<mapsto> e))
      \<and> is_str (dict_get (submitted_entry data) (ustr ''name''))
      \<and> length (str_strip (str_of (dict_get (submitted_entry data) (ustr ''name'')))) \<noteq> 0
      \<and> str_of (dict_get (submitted_entry data) (ustr ''name'')) \<notin> dom cb
      \<and> ((\<exists>ct. e = Ingredient (str_of (dict_get (submitted_entry data) (ustr ''name''))) ct \<and> 0 \<le> ct)
         \<or> (\<exists>items. e = Recipe (str_of (dict_get (submitted_entry data) (ustr ''name''))) items))"
    then obtain e where c: "create_from cb (submitted_entry data) =
        ((Json (JObj []), 200), cb(str_of (dict_get (submitted_entry data) (ustr ''name'')) \<mapsto> e))"
      and nb: "length (str_strip (str_of (dict_get (submitted_entry data) (ustr ''name'')))) \<noteq> 0"
      and fresh: "str_of (dict_get (submitted_entry data) (ustr ''name'')) \<notin> dom cb"
      and ty: "(\<exists>ct. e = Ingredient (str_of (dict_get (submitted_entry data) (ustr ''name''))) ct \<and> 0 \<le> ct)
         \<or> (\<exists>items. e = Recipe (str_of (dict_get (submitted_entry data) (ustr ''name''))) items)"
      by blast
    from nb have "str_strip (str_of (dict_get (submitted_entry data) (ustr ''name''))) \<noteq> []"
      by simp
    with c fresh ty eq show ?thesis by metis
  qed
qed

lemma create_egg_ingredient:
  "create_entry Map.empty egg_ingredient = ((Json (JObj []), 200), egg_cookbook)"
  by (simp add: create_entry_unfold submitted_entry_def create_from_def egg_ingredient_def
      egg_cookbook_def ustr_def str_strip_def str_isspace_def)

text \<open>
  C4. Entry creation is atomic and keeps names unique. Whatever the payload, a response
  other than the 200 with the empty object is the 400 with the empty body, and the
  cookbook is the one the request found. When a first payload has been accepted, every
  second payload that carries the same name, of either type, is rejected and leaves the
  cookbook as the first left it: the old cookbook plus the first entry under its name,
  which was free before.
\<close>

theorem create_entry_atomic_unique:
  "(fst (create_entry cb data) \<noteq> (Json (JObj []), 200) \<longrightarrow> create_entry cb data = (bad_request, cb))
   \<and> (create_entry cb first = ((Json (JObj []), 200), cb1)
        \<and> submitted_name second = submitted_name first
      \<longrightarrow> create_entry cb1 second = (bad_request, cb1)
          \<and> str_of (submitted_name first) \<notin> dom cb
          \<and> (\<exists>e. cb1 = cb(str_of (submitted_name first) \<mapsto> e)
                \<and> snd (create_entry cb1 second) (str_of (submitted_name first)) = Some e))"
proof (intro conjI impI)
  assume "fst (create_entry cb data) \<noteq> (Json (JObj []), 200)"
  then show "create_entry cb data = (bad_request, cb)"
    using create_from_cases [of cb "submitted_entry data"]
    by (auto simp: create_entry_unfold split: if_splits)
next
  assume a: "create_entry cb first = ((Json (JObj []), 200), cb1)
        \<and> submitted_name second = submitted_name first"
  have nb: "((Json (JObj []), 200), cb1) \<noteq> (bad_request, cb)"
    by (simp add: bad_request_def)
  from a nb have d: "is_dict first" and
    cf: "create_from cb (submitted_entry first) = ((Json (JObj []), 200), cb1)"
    by (auto simp: create_entry_unfold split: if_splits)
  from cf nb create_from_cases [of cb "submitted_entry first"]
  obtain e where e: "cb1 = cb(str_of (submitted_name first) \<mapsto> e)"
    and s: "is_str (submitted_name first)"
    and fresh: "str_of (submitted_name first) \<notin> dom cb"
    by (auto simp: submitted_name_def)
  from e have "str_of (submitted_name first) \<in> dom cb1" by simp
  with s a have "create_from cb1 (submitted_entry second) = (bad_request, cb1)"
    by (intro create_from_taken) (simp_all add: submitted_name_def)
  then have r: "create_entry cb1 second = (bad_request, cb1)"
    by (simp add: create_entry_unfold)
  from r show "create_entry cb1 second = (bad_request, cb1)" .
  from fresh show "str_of (submitted_name first) \<notin> dom cb" .
  from e r show "\<exists>e. cb1 = cb(str_of (submitted_name first) \<mapsto> e)
                \<and> snd (create_entry cb1 second) (str_of (submitted_name first)) = Some e"
    by simp
qed

theorem create_entry_atomic_unique_witness:
  "create_entry Map.empty JNull = (bad_request, Map.empty)
   \<and> create_entry Map.empty egg_ingredient = ((Json (JObj []), 200), egg_cookbook)
   \<and> create_entry egg_cookbook egg_recipe = (bad_request, egg_cookbook)
   \<and> egg_cookbook (ustr ''Egg'') = Some (Ingredient (ustr ''Egg'') 3)"
proof -
  have n: "submitted_name egg_recipe = submitted_name egg_ingredient"
    by (simp add: submitted_name_def submitted_entry_def egg_recipe_def egg_ingredient_def ustr_def)
  have b: "fst (create_entry Map.empty JNull) \<noteq> (Json (JObj []), 200)"
    by (simp add: create_entry_def bad_request_def)
  from create_entry_atomic_unique [of Map.empty JNull egg_ingredient egg_cookbook egg_recipe]
    n b create_egg_ingredient
  show ?thesis by (simp add: egg_cookbook_def)
qed

text \<open>
  C5. A recipe payload whose requiredItems holds two elements with the same name (at
  two positions i < j) is rejected with 400, and the cookbook is not modified.
\<close>

theorem create_entry_rejects_duplicate_items:
  assumes "dict_get (submitted_entry data) (ustr ''type'') = JStr (ustr ''recipe'')"
    and "dict_get (submitted_entry data) (ustr ''requiredItems'') = JList items"
    and "i < j" "j < length items"
    and "dict_get (items ! i) (ustr ''name'') = dict_get (items ! j) (ustr ''name'')"
  shows "create_entry cb data = (bad_request, cb)"
  using create_from_duplicate [OF assms] by (simp add: create_entry_unfold)

theorem create_entry_rejects_duplicate_items_witness:
  "create_entry Map.empty two_flour = (bad_request, Map.empty)"
  using create_entry_rejects_duplicate_items [of two_flour
      "[JObj [(ustr ''name'', JStr (ustr ''Flour'')), (ustr ''quantity'', JInt 1)],
        JObj [(ustr ''name'', JStr (ustr ''Egg'')), (ustr ''quantity'', JInt 2)],
        JObj [(ustr ''name'', JStr (ustr ''Flour'')), (ustr ''quantity'', JInt 3)]]" 0 2 Map.empty]
  by (simp add: two_flour_def submitted_entry_def ustr_def)

text \<open>
  C10, as amended. For every JSON object E whose own member \<^verbatim>\<open>entry\<close> is not an object
  (absent, or any other value), the wrapped payload with E under the key \<^verbatim>\<open>entry\<close> has
  the response and the resulting cookbook of E itself. For an E that holds an object
  under \<^verbatim>\<open>entry\<close> the handler unwraps E as well when it is sent directly, and the two
  requests can differ, as the payload \<open>nested_entry\<close> shows after the theorem.
\<close>

theorem wrapped_entry_same:
  assumes "is_dict E" "\<not> is_dict (dict_get E (ustr ''entry''))"
  shows "create_entry cb (JObj [(ustr ''entry'', E)]) = create_entry cb E"
  using assms by (simp add: create_entry_unfold submitted_entry_def)

theorem wrapped_entry_same_witness:
  "create_entry Map.empty (JObj [(ustr ''entry'', egg_ingredient)])
     = create_entry Map.empty egg_ingredient
   \<and> create_entry Map.empty (JObj [(ustr ''entry'', egg_ingredient)])
     = ((Json (JObj []), 200), egg_cookbook)"
proof -
  have "is_dict egg_ingredient" "\<not> is_dict (dict_get egg_ingredient (ustr ''entry''))"
    by (simp_all add: egg_ingredient_def ustr_def)
  from wrapped_entry_same [OF this, of Map.empty] create_egg_ingredient
  show ?thesis by simp
qed

theorem wrapped_entry_counterexample:
  "create_entry Map.empty (JObj [(ustr ''entry'', nested_entry)])
     = ((Json (JObj []), 200), [ustr ''b'' \<mapsto> Recipe (ustr ''b'') []])
   \<and> create_entry Map.empty nested_entry
     = ((Json (JObj []), 200), [ustr ''a'' \<mapsto> Ingredient (ustr ''a'') 1])
   \<and> create_entry Map.empty (JObj [(ustr ''entry'', nested_entry)])
     \<noteq> create_entry Map.empty nested_entry"
proof -
  have w: "create_entry Map.empty (JObj [(ustr ''entry'', nested_entry)])
     = ((Json (JObj []), 200), [ustr ''b'' \<mapsto> Recipe (ustr ''b'') []])"
    by (simp add: create_entry_unfold submitted_entry_def create_from_def nested_entry_def
      ustr_def str_strip_def str_isspace_def)
  have d: "create_entry Map.empty nested_entry
     = ((Json (JObj []), 200), [ustr ''a'' \<mapsto> Ingredient (ustr ''a'') 1])"
    by (simp add: create_entry_unfold submitted_entry_def create_from_def nested_entry_def
      ustr_def str_strip_def str_isspace_def)
  have "[ustr ''b'' \<mapsto> Recipe (ustr ''b'') []] (ustr ''a'')
      \<noteq> [ustr ''a'' \<mapsto> Ingredient (ustr ''a'') 1] (ustr ''a'')"
    by (simp add: ustr_def)
  then have "[ustr ''b'' \<mapsto> Recipe (ustr ''b'') []] \<noteq> [ustr ''a'' \<mapsto> Ingredient (ustr ''a'') 1]"
    by metis
  with w d show ?thesis by simp
qed

section \<open>Properties of expansion\<close>

lemma items_success_member:
  "expand_required_items ov d cb items m tot acc clk = (Inr t, acc', clk') \<Longrightarrow> req \<in> set items
    \<Longrightarrow> \<exists>m' a k t' a' k'. expand_to_ingredients ov d cb (name req) m' a k = (Inr t', a', k')"
proof (induction items arbitrary: tot acc clk)
  case Nil
  then show ?case by simp
next
  case (Cons r rest)
  from Cons.prems(1) have nr: "\<not> call_raises ov d clk"
    by (auto split: if_splits)
  obtain res a1 k1 where first:
    "expand_to_ingredients ov d cb (name r) (m * quantity r) acc (clk + 1) = (res, a1, k1)"
    by (cases "expand_to_ingredients ov d cb (name r) (m * quantity r) acc (clk + 1)")
  with Cons.prems(1) nr obtain t1 where res: "res = Inr t1"
    by (cases res) auto
  show ?case
  proof (cases "req = r")
    case True
    with first res show ?thesis by blast
  next
    case False
    with Cons.prems(2) have "req \<in> set rest" by simp
    moreover from Cons.prems(1) first res nr
    have "expand_required_items ov d cb rest m (tot + t1) a1 k1 = (Inr t, acc', clk')" by simp
    ultimately show ?thesis by (rule Cons.IH [rotated])
  qed
qed

lemma direct_success:
  assumes "cb a = Some (Recipe nm items)" "req \<in> set items"
    and "expand_to_ingredients ov n cb a m acc clk = (Inr t, acc', clk')"
  shows "\<exists>n' m' a1 k1 t' a1' k1'. n' < n
    \<and> expand_to_ingredients ov n' cb (name req) m' a1 k1 = (Inr t', a1', k1')"
proof (cases n)
  case 0
  with assms(3) show ?thesis by simp
next
  case (Suc d)
  with assms(1,3)
  have "expand_required_items ov d cb items m 0 acc (clk + 2) = (Inr t, acc', clk')"
    by (simp split: if_splits)
  from items_success_member [OF this assms(2)] Suc show ?thesis by blast
qed

lemma requires_success:
  "requires cb a b \<Longrightarrow> expand_to_ingredients ov n cb a m acc clk = (Inr t, acc', clk')
    \<Longrightarrow> \<exists>n' m' a1 k1 t' a1' k1'. n' < n
      \<and> expand_to_ingredients ov n' cb b m' a1 k1 = (Inr t', a1', k1')"
proof (induction arbitrary: n m acc clk t acc' clk' rule: requires.induct)
  case (direct a nm items req)
  then show ?case by (rule direct_success)
next
  case (transitive a b c)
  from transitive.IH(1) [OF transitive.prems]
  obtain n1 m1 a1 k1 t1 a1' k1' where n1: "n1 < n"
    and s1: "expand_to_ingredients ov n1 cb b m1 a1 k1 = (Inr t1, a1', k1')" by blast
  from transitive.IH(2) [OF s1]
  obtain n2 m2 a2 k2 t2 a2' k2' where "n2 < n1"
    and "expand_to_ingredients ov n2 cb c m2 a2 k2 = (Inr t2, a2', k2')" by blast
  with n1 show ?case by (meson less_trans)
qed

lemma cycle_never_succeeds:
  "requires cb a a \<Longrightarrow> expand_to_ingredients ov n cb a m acc clk \<noteq> (Inr t, acc', clk')"
proof (induction n arbitrary: m acc clk t acc' clk' rule: less_induct)
  case (less n)
  show ?case
  proof
    assume "expand_to_ingredients ov n cb a m acc clk = (Inr t, acc', clk')"
    from requires_success [OF less.prems this] less.IH [OF _ less.prems]
    show False by blast
  qed
qed

lemma absent_never_succeeds:
  "cb b = None \<Longrightarrow> expand_to_ingredients ov n cb b m acc clk \<noteq> (Inr t, acc', clk')"
  by (cases n) simp_all

lemma missing_never_succeeds:
  assumes "requires cb a b" "cb b = None"
  shows "expand_to_ingredients ov n cb a m acc clk \<noteq> (Inr t, acc', clk')"
proof
  assume "expand_to_ingredients ov n cb a m acc clk = (Inr t, acc', clk')"
  from requires_success [OF assms(1) this]
  obtain n' m' a1 k1 t' a1' k1'
    where "expand_to_ingredients ov n' cb b m' a1 k1 = (Inr t', a1', k1')" by blast
  with absent_never_succeeds [of cb b ov n' m' a1 k1 t' a1' k1'] assms(2) show False by simp
qed

lemma items_only_recursion_error:
  assumes "\<And>req m acc clk e. req \<in> set items
      \<Longrightarrow> fst (expand_to_ingredients ov d cb (name req) m acc clk) = Inl e \<Longrightarrow> e = RecursionError"
  shows "fst (expand_required_items ov d cb items m tot acc clk) = Inl e \<Longrightarrow> e = RecursionError"
  using assms
proof (induction items arbitrary: tot acc clk)
  case Nil
  then show ?case by simp
next
  case (Cons r rest)
  show ?case
  proof (cases "call_raises ov d clk")
    case True
    with Cons.prems(1) show ?thesis by simp
  next
    case nr: False
    obtain res a1 k1 where first:
      "expand_to_ingredients ov d cb (name r) (m * quantity r) acc (clk + 1) = (res, a1, k1)"
      by (cases "expand_to_ingredients ov d cb (name r) (m * quantity r) acc (clk + 1)")
    show ?thesis
    proof (cases res)
      case (Inl e1)
      with first nr Cons.prems(1) have "e = e1" by simp
      moreover from first Inl
      have "fst (expand_to_ingredients ov d cb (name r) (m * quantity r) acc (clk + 1)) = Inl e1"
        by simp
      then have "e1 = RecursionError" by (rule Cons.prems(2) [rotated]) simp
      ultimately show ?thesis by simp
    next
      case (Inr t1)
      with first nr Cons.prems(1)
      have "fst (expand_required_items ov d cb rest m (tot + t1) a1 k1) = Inl e" by simp
      then show ?thesis
        by (rule Cons.IH) (rule Cons.prems(2), simp_all)
    qed
  qed
qed

lemma resolved_only_recursion_error:
  assumes "\<And>x. x = a \<or> requires cb a x
      \<Longrightarrow> (\<exists>nm items. cb x = Some (Recipe nm items)) \<or> (\<exists>nm ct. cb x = Some (Ingredient nm ct))"
  shows "fst (expand_to_ingredients ov n cb a m acc clk) = Inl e \<Longrightarrow> e = RecursionError"
  using assms
proof (induction n arbitrary: a m acc clk e)
  case 0
  then show ?case by simp
next
  case (Suc d)
  from Suc.prems(2) [of a]
  consider nm items where "cb a = Some (Recipe nm items)"
    | nm ct where "cb a = Some (Ingredient nm ct)" by auto
  then show ?case
  proof cases
    case 1
    show ?thesis
    proof (cases "call_raises ov d clk \<or> call_raises ov d (clk + 1)")
      case True
      with 1 Suc.prems(1) show ?thesis by (auto split: if_splits)
    next
      case False
      with 1 Suc.prems(1)
      have err: "fst (expand_required_items ov d cb items m 0 acc (clk + 2)) = Inl e" by simp
      have "e' = RecursionError"
        if "req \<in> set items" "fst (expand_to_ingredients ov d cb (name req) m' acc1 k1) = Inl e'"
        for req m' acc1 k1 e'
      proof (rule Suc.IH [OF that(2)])
        fix x
        assume "x = name req \<or> requires cb (name req) x"
        moreover have "requires cb a (name req)"
          using 1 that(1) by (rule requires.direct)
        ultimately have "requires cb a x"
          by (auto intro: requires.transitive)
        then show "(\<exists>nm items. cb x = Some (Recipe nm items)) \<or> (\<exists>nm ct. cb x = Some (Ingredient nm ct))"
          by (intro Suc.prems(2)) simp
      qed
      then show ?thesis
        using err by (intro items_only_recursion_error [of items ov d cb m 0 acc "clk + 2" e]) auto
    qed
  next
    case 2
    with Suc.prems(1) show ?thesis by (auto split: if_splits)
  qed
qed

lemma expand_no_unknown_type:
  assumes "\<And>k n. cb k \<noteq> Some (CookbookEntry n)"
  shows "fst (expand_to_ingredients ov d cb a m acc clk) \<noteq> Inl (ValueError s)"
    and "fst (expand_required_items ov d cb items m tot acc clk) \<noteq> Inl (ValueError s)"
  using assms
  by (induction ov d cb a m acc clk and ov d cb items m tot acc clk
      rule: expand_to_ingredients_expand_required_items.induct)
    (auto split: option.splits entry.splits sum.splits prod.splits)

lemma expand_fails:
  assumes "\<And>t acc' clk'. expand_to_ingredients ov n cb a m acc clk \<noteq> (Inr t, acc', clk')"
  shows "\<exists>e acc' clk'. expand_to_ingredients ov n cb a m acc clk = (Inl e, acc', clk')"
proof -
  obtain res acc' clk' where r: "expand_to_ingredients ov n cb a m acc clk = (res, acc', clk')"
    by (cases "expand_to_ingredients ov n cb a m acc clk")
  with assms show ?thesis by (cases res) auto
qed

lemma summary_fails:
  assumes "\<And>t acc clk. expand_to_ingredients ov limit cb nm 1 [] 0 \<noteq> (Inr t, acc, clk)"
  shows "summary ov limit cb (Some nm) = (bad_request, cb)"
proof -
  from expand_fails [of ov limit cb nm 1 "[]" 0] assms
  obtain e acc clk where "expand_to_ingredients ov limit cb nm 1 [] 0 = (Inl e, acc, clk)"
    by blast
  then show ?thesis
    by (simp add: summary_def split: option.split entry.split)
qed

lemma items_keyerror:
  assumes "\<And>req m acc clk. req \<in> set items
      \<Longrightarrow> fst (expand_to_ingredients ov d cb (name req) m acc clk) = Inl (KeyError s)
      \<Longrightarrow> P (name req)"
  shows "fst (expand_required_items ov d cb items m tot acc clk) = Inl (KeyError s)
    \<Longrightarrow> \<exists>req \<in> set items. P (name req)"
  using assms
proof (induction items arbitrary: tot acc clk)
  case Nil
  then show ?case by simp
next
  case (Cons r rest)
  from Cons.prems(1) have nr: "\<not> call_raises ov d clk"
    by (auto split: if_splits)
  obtain res a1 k1 where first:
    "expand_to_ingredients ov d cb (name r) (m * quantity r) acc (clk + 1) = (res, a1, k1)"
    by (cases "expand_to_ingredients ov d cb (name r) (m * quantity r) acc (clk + 1)")
  show ?case
  proof (cases res)
    case (Inl e1)
    with first nr Cons.prems(1) have "e1 = KeyError s" by simp
    with first Inl
    have "fst (expand_to_ingredients ov d cb (name r) (m * quantity r) acc (clk + 1))
        = Inl (KeyError s)" by simp
    then have "P (name r)" by (rule Cons.prems(2) [rotated]) simp
    then show ?thesis by simp
  next
    case (Inr t1)
    with first nr Cons.prems(1)
    have "fst (expand_required_items ov d cb rest m (tot + t1) a1 k1) = Inl (KeyError s)" by simp
    then have "\<exists>req \<in> set rest. P (name req)"
      by (rule Cons.IH) (rule Cons.prems(2), simp_all)
    then show ?thesis by auto
  qed
qed

lemma keyerror_missing:
  "fst (expand_to_ingredients ov n cb a m acc clk) = Inl (KeyError s)
    \<Longrightarrow> cb a = None \<or> (\<exists>x. requires cb a x \<and> cb x = None)"
proof (induction n arbitrary: a m acc clk)
  case 0
  then show ?case by simp
next
  case (Suc d)
  show ?case
  proof (cases "cb a")
    case None
    then show ?thesis by simp
  next
    case (Some entry)
    show ?thesis
    proof (cases entry)
      case (CookbookEntry nm)
      with Some Suc.prems show ?thesis by (auto split: if_splits)
    next
      case (Ingredient nm ct)
      with Some Suc.prems show ?thesis by (auto split: if_splits)
    next
      case (Recipe nm items)
      with Some Suc.prems
      have "fst (expand_required_items ov d cb items m 0 acc (clk + 2)) = Inl (KeyError s)"
        by (auto split: if_splits)
      then have "\<exists>req \<in> set items.
          cb (name req) = None \<or> (\<exists>x. requires cb (name req) x \<and> cb x = None)"
        by (rule items_keyerror [rotated]) (rule Suc.IH)
      then obtain req where req: "req \<in> set items"
        and m: "cb (name req) = None \<or> (\<exists>x. requires cb (name req) x \<and> cb x = None)"
        by blast
      from Some Recipe req have d: "requires cb a (name req)"
        by (intro requires.direct) auto
      from m d have "\<exists>x. requires cb a x \<and> cb x = None"
        by (auto intro: requires.transitive)
      then show ?thesis by simp
    qed
  qed
qed



lemma acc_get_acc_add: "acc_get (acc_add k m acc) k' = (if k' = k then acc_get acc k + m else acc_get acc k')"
  by (induction acc) (auto simp: acc_get_def)

lemma keys_acc_add:
  "map fst (acc_add k m acc) = (if k \<in> set (map fst acc) then map fst acc else map fst acc @ [k])"
proof (induction acc)
  case Nil
  then show ?case by simp
next
  case (Cons x acc)
  obtain k' v where x: "x = (k', v)" by (cases x)
  show ?case
  proof (cases "k' = k")
    case True
    then show ?thesis by (simp add: x)
  next
    case False
    with Cons.IH show ?thesis by (simp add: x)
  qed
qed

lemma leaf_quantity_Nil: "leaf_quantity m [] k = 0"
  by (simp add: leaf_quantity_def)

lemma leaf_quantity_Cons:
  "leaf_quantity m ((qs, nm, ct) # leaves) k =
     (if nm = k then m * prod_list qs else 0) + leaf_quantity m leaves k"
  by (simp add: leaf_quantity_def)

lemma acc_get_foldl_path_add:
  "acc_get (foldl (path_add m) acc leaves) k = acc_get acc k + leaf_quantity m leaves k"
proof (induction leaves arbitrary: acc)
  case Nil
  then show ?case by (simp add: leaf_quantity_Nil)
next
  case (Cons leaf leaves)
  obtain qs nm ct where leaf: "leaf = (qs, nm, ct)" by (cases leaf)
  have "acc_get (foldl (path_add m) (path_add m acc leaf) leaves) k
      = acc_get (path_add m acc leaf) k + leaf_quantity m leaves k"
    by (rule Cons.IH)
  moreover have "acc_get (path_add m acc leaf) k = acc_get acc k + (if nm = k then m * prod_list qs else 0)"
    by (simp add: leaf path_add_def acc_get_acc_add)
  moreover have "leaf_quantity m (leaf # leaves) k
      = (if nm = k then m * prod_list qs else 0) + leaf_quantity m leaves k"
    by (simp add: leaf leaf_quantity_Cons)
  ultimately show ?case by simp
qed

lemma keys_foldl_path_add:
  "map fst (foldl (path_add m) acc leaves) = first_seen (map fst acc) (leaf_names leaves)"
proof (induction leaves arbitrary: acc)
  case Nil
  then show ?case by (simp add: leaf_names_def)
next
  case (Cons leaf leaves)
  obtain qs nm ct where leaf: "leaf = (qs, nm, ct)" by (cases leaf)
  have "map fst (foldl (path_add m) (path_add m acc leaf) leaves)
      = first_seen (map fst (path_add m acc leaf)) (leaf_names leaves)"
    by (rule Cons.IH)
  then show ?case
    by (simp add: leaf leaf_names_def path_add_def keys_acc_add del: set_map)
qed

lemma distinct_first_seen: "distinct seen \<Longrightarrow> distinct (first_seen seen xs)"
  by (induction xs arbitrary: seen) auto

lemma assoc_by_keys: "distinct (map fst xs) \<Longrightarrow> xs = map (\<lambda>k. (k, acc_get xs k)) (map fst xs)"
proof (induction xs)
  case Nil
  then show ?case by simp
next
  case (Cons x xs)
  obtain k v where x: "x = (k, v)" by (cases x)
  from Cons.prems x have k: "k \<notin> fst ` set xs" and d: "distinct (map fst xs)" by auto
  have "map (\<lambda>k'. (k', acc_get ((k, v) # xs) k')) (map fst xs) = map (\<lambda>k'. (k', acc_get xs k')) (map fst xs)"
    using k by (intro map_cong) (auto simp: acc_get_def)
  with Cons.IH [OF d] show ?case
    by (simp add: x acc_get_def)
qed

lemma acc_closed_form:
  "foldl (path_add m) [] leaves =
     map (\<lambda>k. (k, leaf_quantity m leaves k)) (first_seen [] (leaf_names leaves))"
proof -
  let ?acc = "foldl (path_add m) [] leaves"
  have keys: "map fst ?acc = first_seen [] (leaf_names leaves)"
    using keys_foldl_path_add [of m "[]" leaves] by simp
  then have "distinct (map fst ?acc)"
    by (simp add: distinct_first_seen)
  then have "?acc = map (\<lambda>k. (k, acc_get ?acc k)) (map fst ?acc)"
    by (rule assoc_by_keys)
  also have "\<dots> = map (\<lambda>k. (k, leaf_quantity m leaves k)) (first_seen [] (leaf_names leaves))"
  proof -
    have "acc_get ?acc k = leaf_quantity m leaves k" for k
      using acc_get_foldl_path_add [of m "[]" leaves k] by (simp add: acc_get_def)
    then show ?thesis by (simp add: keys)
  qed
  finally show ?thesis .
qed

lemma path_time_cons:
  "map (path_time m) (map (\<lambda>(qs, leaf). (q # qs, leaf)) ps) = map (path_time (m * q)) ps"
  by (simp add: path_time_def case_prod_unfold mult.assoc)

lemma path_add_cons:
  "foldl (path_add m) acc (map (\<lambda>(qs, leaf). (q # qs, leaf)) ps) = foldl (path_add (m * q)) acc ps"
  by (induction ps arbitrary: acc) (simp_all add: path_add_def case_prod_unfold mult.assoc)

lemma item_paths_Cons:
  "item_paths d cb (req # rest) =
      map (\<lambda>(qs, leaf). (quantity req # qs, leaf)) (leaf_paths d cb (name req))
      @ item_paths d cb rest"
  by (simp add: item_paths_def)

lemma no_raise: "\<forall>k. ov k \<le> B \<Longrightarrow> B \<le> depth \<Longrightarrow> \<not> call_raises ov depth clk"
  by (auto simp: call_raises_def not_less intro: order_trans)

lemma items_fit:
  assumes H: "\<And>req m acc clk. req \<in> set items \<Longrightarrow>
      \<exists>clk'. expand_to_ingredients ov depth cb (name req) m acc clk =
        (Inr (sum_list (map (path_time m) (leaf_paths d cb (name req)))),
         foldl (path_add m) acc (leaf_paths d cb (name req)), clk')"
    and ov: "\<forall>k. ov k \<le> B" "B \<le> depth"
  shows "\<exists>clk'. expand_required_items ov depth cb items m tot acc clk =
      (Inr (tot + sum_list (map (path_time m) (item_paths d cb items))),
       foldl (path_add m) acc (item_paths d cb items), clk')"
  using H
proof (induction items arbitrary: tot acc clk)
  case Nil
  then show ?case by (simp add: item_paths_def)
next
  case (Cons r rest)
  have nr: "\<not> call_raises ov depth clk" using ov by (rule no_raise)
  from Cons.prems [of r "m * quantity r" acc "clk + 1"]
  obtain k1 where f: "expand_to_ingredients ov depth cb (name r) (m * quantity r) acc (clk + 1) =
        (Inr (sum_list (map (path_time (m * quantity r)) (leaf_paths d cb (name r)))),
         foldl (path_add (m * quantity r)) acc (leaf_paths d cb (name r)), k1)"
    by auto
  have "\<exists>clk'. expand_required_items ov depth cb rest m
        (tot + sum_list (map (path_time (m * quantity r)) (leaf_paths d cb (name r))))
        (foldl (path_add (m * quantity r)) acc (leaf_paths d cb (name r))) k1 =
      (Inr (tot + sum_list (map (path_time (m * quantity r)) (leaf_paths d cb (name r)))
             + sum_list (map (path_time m) (item_paths d cb rest))),
       foldl (path_add m) (foldl (path_add (m * quantity r)) acc (leaf_paths d cb (name r)))
         (item_paths d cb rest), clk')"
    by (rule Cons.IH) (rule Cons.prems, simp)
  then obtain k2 where g: "expand_required_items ov depth cb rest m
        (tot + sum_list (map (path_time (m * quantity r)) (leaf_paths d cb (name r))))
        (foldl (path_add (m * quantity r)) acc (leaf_paths d cb (name r))) k1 =
      (Inr (tot + sum_list (map (path_time (m * quantity r)) (leaf_paths d cb (name r)))
             + sum_list (map (path_time m) (item_paths d cb rest))),
       foldl (path_add m) (foldl (path_add (m * quantity r)) acc (leaf_paths d cb (name r)))
         (item_paths d cb rest), k2)"
    by blast
  have st: "sum_list (map (path_time m) (item_paths d cb (r # rest))) =
      sum_list (map (path_time (m * quantity r)) (leaf_paths d cb (name r)))
      + sum_list (map (path_time m) (item_paths d cb rest))"
    by (simp only: item_paths_Cons map_append sum_list_append path_time_cons)
  have sa: "foldl (path_add m) acc (item_paths d cb (r # rest)) =
      foldl (path_add m)
        (foldl (path_add (m * quantity r)) acc (leaf_paths d cb (name r)))
        (item_paths d cb rest)"
    by (simp only: item_paths_Cons foldl_append path_add_cons)
  have "expand_required_items ov depth cb (r # rest) m tot acc clk =
      (Inr (tot + sum_list (map (path_time m) (item_paths d cb (r # rest)))),
       foldl (path_add m) acc (item_paths d cb (r # rest)), k2)"
    by (simp add: nr f g st sa add.assoc del: One_nat_def)
  then show ?case by blast
qed

lemma expand_fits:
  assumes ov: "\<forall>k. ov k \<le> B"
  shows "fits d cb a \<Longrightarrow> d + B \<le> limit
    \<Longrightarrow> \<exists>clk'. expand_to_ingredients ov limit cb a m acc clk =
        (Inr (sum_list (map (path_time m) (leaf_paths d cb a))),
         foldl (path_add m) acc (leaf_paths d cb a), clk')"
proof (induction d arbitrary: a m acc clk limit)
  case 0
  then show ?case by simp
next
  case (Suc d)
  from Suc.prems(2) obtain depth where limit: "limit = Suc depth" and depth: "d + B \<le> depth"
    by (cases limit) auto
  from depth have B: "B \<le> depth" by simp
  have nr: "\<not> call_raises ov depth k" for k using ov B by (rule no_raise)
  from Suc.prems(1) consider nm ct where "cb a = Some (Ingredient nm ct)"
    | nm items where "cb a = Some (Recipe nm items)"
        "list_all (\<lambda>req. fits d cb (name req)) items"
    by (auto split: option.splits entry.splits)
  then show ?case
  proof cases
    case 1
    then show ?thesis
      by (simp add: limit nr path_time_def path_add_def)
  next
    case 2
    have "\<exists>clk'. expand_required_items ov depth cb items m 0 acc (clk + 2) =
      (Inr (0 + sum_list (map (path_time m) (item_paths d cb items))),
       foldl (path_add m) acc (item_paths d cb items), clk')"
    proof (rule items_fit [OF _ ov B])
      fix req m' acc' clk'
      assume "req \<in> set items"
      with 2(2) have "fits d cb (name req)" by (simp add: list_all_iff)
      then show "\<exists>k. expand_to_ingredients ov depth cb (name req) m' acc' clk' =
        (Inr (sum_list (map (path_time m') (leaf_paths d cb (name req)))),
         foldl (path_add m') acc' (leaf_paths d cb (name req)), k)"
        using depth by (rule Suc.IH)
    qed
    with 2(1) show ?thesis
      by (simp add: limit nr item_paths_def)
  qed
qed

lemma reachable_entries:
  "reachable cb \<Longrightarrow> cb k = Some e
    \<Longrightarrow> str_strip k \<noteq> []
      \<and> ((\<exists>ct. e = Ingredient k ct \<and> 0 \<le> ct) \<or> (\<exists>items. e = Recipe k items))"
proof (induction arbitrary: k e rule: reachable.induct)
  case initial
  then show ?case by simp
next
  case (created cb data resp cb')
  from create_entry_cases [of cb data] show ?case
  proof
    assume "create_entry cb data = (bad_request, cb)"
    with created.hyps(2) have "cb' = cb" by simp
    with created.IH created.prems show ?thesis by simp
  next
    assume "\<exists>k e. create_entry cb data = ((Json (JObj []), 200), cb(k \<mapsto> e))
          \<and> k \<notin> dom cb \<and> str_strip k \<noteq> []
          \<and> ((\<exists>ct. e = Ingredient k ct \<and> 0 \<le> ct) \<or> (\<exists>items. e = Recipe k items))"
    then obtain k' e' where c: "create_entry cb data = ((Json (JObj []), 200), cb(k' \<mapsto> e'))"
      and nb: "str_strip k' \<noteq> []"
      and ty: "(\<exists>ct. e' = Ingredient k' ct \<and> 0 \<le> ct) \<or> (\<exists>items. e' = Recipe k' items)"
      by blast
    from c created.hyps(2) have cb': "cb' = cb(k' \<mapsto> e')" by simp
    show ?thesis
    proof (cases "k = k'")
      case True
      with cb' created.prems have "e = e'" by simp
      with True ty nb show ?thesis by simp
    next
      case False
      with cb' created.prems have "cb k = Some e" by simp
      then show ?thesis by (rule created.IH)
    qed
  qed
qed

lemma reachable_egg_cookbook: "reachable egg_cookbook"
  using reachable.created [OF reachable.initial create_egg_ingredient] .

text \<open>
  C9. In every cookbook built from the empty one by entry creation alone, each value is
  an Ingredient or a Recipe stored under its own name, and no expansion, from any name,
  at any recursion limit and in any state of the interpreter, ends in the error
  "unknown entry type".
\<close>

theorem type_analysis_exhaustive:
  assumes "reachable cb"
  shows "(\<forall>k e. cb k = Some e \<longrightarrow> (\<exists>ct. e = Ingredient k ct) \<or> (\<exists>items. e = Recipe k items))
    \<and> fst (expand_to_ingredients overhead limit cb a m acc clk)
        \<noteq> Inl (ValueError ''unknown entry type'')"
proof
  show ty: "\<forall>k e. cb k = Some e \<longrightarrow> (\<exists>ct. e = Ingredient k ct) \<or> (\<exists>items. e = Recipe k items)"
    using reachable_entries [OF assms] by blast
  have "cb k \<noteq> Some (CookbookEntry n)" for k n
    using ty by auto
  then show "fst (expand_to_ingredients overhead limit cb a m acc clk)
      \<noteq> Inl (ValueError ''unknown entry type'')"
    by (rule expand_no_unknown_type(1))
qed

theorem type_analysis_exhaustive_witness:
  "reachable egg_cookbook
   \<and> egg_cookbook (ustr ''Egg'') = Some (Ingredient (ustr ''Egg'') 3)
   \<and> fst (expand_to_ingredients cold 1000 egg_cookbook (ustr ''Egg'') 1 [] 0)
       \<noteq> Inl (ValueError ''unknown entry type'')"
  using type_analysis_exhaustive [OF reachable_egg_cookbook, of cold 1000 "ustr ''Egg''" 1 "[]" 0]
    reachable_egg_cookbook
  by (simp add: egg_cookbook_def)

text \<open>
  C1, as amended. When a recipe requires itself, directly or through other recipes, its
  expansion returns no result at any recursion limit of the interpreter: the expander
  raises, and summary answers 400 with an empty body and leaves the cookbook alone. The
  expander has no depth or visit guard of its own. The exception is the interpreter's
  RecursionError when every name the recipe requires resolves to a recipe or an
  ingredient; a missing entry met first raises KeyError instead, as the cookbook
  \<open>loop_missing\<close> shows after the theorem.
\<close>

theorem self_requiring_recipe_fails:
  assumes "requires cb r r"
  shows "(\<exists>e acc' clk'. expand_to_ingredients overhead limit cb r m acc clk = (Inl e, acc', clk'))
    \<and> summary overhead limit cb (Some r) = (bad_request, cb)
    \<and> ((\<forall>x. requires cb r x \<longrightarrow>
            (\<exists>nm items. cb x = Some (Recipe nm items)) \<or> (\<exists>nm ct. cb x = Some (Ingredient nm ct)))
        \<longrightarrow> fst (expand_to_ingredients overhead limit cb r m acc clk) = Inl RecursionError)"
proof (intro conjI impI)
  show f: "\<exists>e acc' clk'. expand_to_ingredients overhead limit cb r m acc clk = (Inl e, acc', clk')"
    using cycle_never_succeeds [OF assms] by (intro expand_fails) simp
  show "summary overhead limit cb (Some r) = (bad_request, cb)"
    using cycle_never_succeeds [OF assms] by (intro summary_fails) simp
  assume all: "\<forall>x. requires cb r x \<longrightarrow>
            (\<exists>nm items. cb x = Some (Recipe nm items)) \<or> (\<exists>nm ct. cb x = Some (Ingredient nm ct))"
  from f obtain e acc' clk'
    where e: "expand_to_ingredients overhead limit cb r m acc clk = (Inl e, acc', clk')" by blast
  then have "fst (expand_to_ingredients overhead limit cb r m acc clk) = Inl e" by simp
  then have "e = RecursionError"
  proof (rule resolved_only_recursion_error [rotated])
    fix x
    assume "x = r \<or> requires cb r x"
    with assms have "requires cb r x" by auto
    with all show "(\<exists>nm items. cb x = Some (Recipe nm items)) \<or> (\<exists>nm ct. cb x = Some (Ingredient nm ct))"
      by blast
  qed
  with e show "fst (expand_to_ingredients overhead limit cb r m acc clk) = Inl RecursionError"
    by simp
qed

lemma self_loop_at:
  "self_loop k = (if k = ustr ''R'' then Some (Recipe (ustr ''R'') [\<lparr>name = ustr ''R'', quantity = 1\<rparr>]) else None)"
  by (simp add: self_loop_def)

lemma self_loop_requires: "requires self_loop a b \<Longrightarrow> a = ustr ''R'' \<and> b = ustr ''R''"
  by (induction rule: requires.induct) (auto simp: self_loop_at split: if_splits)

lemma self_loop_cycle: "requires self_loop (ustr ''R'') (ustr ''R'')"
  using requires.direct [of self_loop "ustr ''R''" "ustr ''R''"
      "[\<lparr>name = ustr ''R'', quantity = 1\<rparr>]" "\<lparr>name = ustr ''R'', quantity = 1\<rparr>"]
  by (simp add: self_loop_at)

theorem self_requiring_recipe_fails_witness:
  "requires self_loop (ustr ''R'') (ustr ''R'')
   \<and> fst (expand_to_ingredients cold 1000 self_loop (ustr ''R'') 1 [] 0) = Inl RecursionError
   \<and> summary cold 1000 self_loop (Some (ustr ''R'')) = (bad_request, self_loop)"
proof -
  have "\<forall>x. requires self_loop (ustr ''R'') x \<longrightarrow>
      (\<exists>nm items. self_loop x = Some (Recipe nm items)) \<or> (\<exists>nm ct. self_loop x = Some (Ingredient nm ct))"
    by (auto dest!: self_loop_requires simp: self_loop_at)
  with self_requiring_recipe_fails [OF self_loop_cycle, of cold 1000 1 "[]" 0] self_loop_cycle
  show ?thesis by blast
qed

lemma loop_missing_at:
  "loop_missing (ustr ''R'') = Some (Recipe (ustr ''R'')
        [\<lparr>name = ustr ''X'', quantity = 1\<rparr>, \<lparr>name = ustr ''R'', quantity = 1\<rparr>])"
  "loop_missing (ustr ''X'') = None"
  by (simp_all add: loop_missing_def ustr_def)

lemma expand_first_missing:
  assumes "cb r = Some (Recipe nm (req # rest))" "cb (name req) = None"
    and "\<forall>k. ov k \<le> B" "B \<le> d"
  shows "expand_to_ingredients ov (Suc (Suc d)) cb r m acc clk
      = (Inl (KeyError ''missing entry''), acc, clk + 4)"
proof -
  have "\<not> call_raises ov d k" "\<not> call_raises ov (Suc d) k" for k
    using no_raise [OF assms(3,4), of k] no_raise [OF assms(3), of "Suc d" k] assms(4)
    by simp_all
  with assms(1,2) show ?thesis by simp
qed

theorem self_requiring_recipe_counterexample:
  "requires loop_missing (ustr ''R'') (ustr ''R'')
   \<and> expand_to_ingredients cold 1000 loop_missing (ustr ''R'') 1 [] 0
       = (Inl (KeyError ''missing entry''), [], 4)
   \<and> expand_to_ingredients warm 1000 loop_missing (ustr ''R'') 1 [] 0
       = (Inl (KeyError ''missing entry''), [], 4)
   \<and> KeyError ''missing entry'' \<noteq> RecursionError"
proof -
  have "requires loop_missing (ustr ''R'') (ustr ''R'')"
    using requires.direct [of loop_missing "ustr ''R''" "ustr ''R''"
      "[\<lparr>name = ustr ''X'', quantity = 1\<rparr>, \<lparr>name = ustr ''R'', quantity = 1\<rparr>]"
      "\<lparr>name = ustr ''R'', quantity = 1\<rparr>"]
    by (simp add: loop_missing_at)
  moreover have "expand_to_ingredients cold (Suc (Suc 998)) loop_missing (ustr ''R'') 1 [] 0
      = (Inl (KeyError ''missing entry''), [], 0 + 4)"
    by (rule expand_first_missing [where req = "\<lparr>name = ustr ''X'', quantity = 1\<rparr>" and B = 1])
       (simp_all add: loop_missing_at cold_def)
  moreover have "expand_to_ingredients warm (Suc (Suc 998)) loop_missing (ustr ''R'') 1 [] 0
      = (Inl (KeyError ''missing entry''), [], 0 + 4)"
    by (rule expand_first_missing [where req = "\<lparr>name = ustr ''X'', quantity = 1\<rparr>" and B = 0])
       (simp_all add: loop_missing_at warm_def)
  moreover have "Suc (Suc 998) = 1000" by simp
  ultimately show ?thesis by simp
qed

lemma too_long_small: "\<bar>x\<bar> < 100 \<Longrightarrow> \<not> too_long x"
proof -
  assume a: "\<bar>x\<bar> < 100"
  have "2 \<le> int_max_str_digits" by (simp add: int_max_str_digits_def)
  then have "(10::int) ^ 2 \<le> 10 ^ int_max_str_digits" by (rule power_increasing) simp
  then have "(100::int) \<le> 10 ^ int_max_str_digits" by simp
  with a show ?thesis by (simp add: too_long_def)
qed

lemma long_int_summary_json:
  "long_int (summary_json nm t acc) = (too_long t \<or> list_ex (\<lambda>(n, q). too_long q) acc)"
  by (simp add: summary_json_def list_ex_iff case_prod_unfold)

lemma summary_inline:
  "summary ov limit cb arg =
     (case arg of
        None \<Rightarrow> (bad_request, cb)
      | Some nm \<Rightarrow>
          if nm = [] \<or> length (str_strip nm) = 0 then (bad_request, cb)
          else
            (case cb nm of
               None \<Rightarrow> (bad_request, cb)
             | Some (Ingredient n c) \<Rightarrow> (bad_request, cb)
             | Some (CookbookEntry n) \<Rightarrow> (bad_request, cb)
             | Some (Recipe n items) \<Rightarrow>
                 (case expand_to_ingredients ov limit cb nm 1 [] 0 of
                    (Inl e, acc, clk) \<Rightarrow> (bad_request, cb)
                  | (Inr total_time, acc, clk) \<Rightarrow>
                      (case jsonify (summary_json nm total_time acc) of
                         Inl e \<Rightarrow> (bad_request, cb)
                       | Inr body \<Rightarrow> ((body, 200), cb)))))"
  unfolding summary_def summary_json_def by (rule refl)

lemma str_strip_Nil: "str_strip [] = []"
  by (simp add: str_strip_def)

lemma summary_ok:
  assumes "str_strip nm \<noteq> []" "cb nm = Some (Recipe n items)"
    and "expand_to_ingredients ov limit cb nm 1 [] 0 = (Inr t, acc, k)"
    and "\<not> long_int (summary_json nm t acc)"
  shows "summary ov limit cb (Some nm) = ((Json (summary_json nm t acc), 200), cb)"
proof -
  from assms(1) have "nm \<noteq> []" by (auto simp: str_strip_Nil)
  with assms show ?thesis by (simp add: summary_inline jsonify_def)
qed

lemma summary_cases:
  "summary ov limit cb (Some nm) = (bad_request, cb)
   \<or> (str_strip nm \<noteq> [] \<and> (\<exists>n items. cb nm = Some (Recipe n items))
      \<and> (\<exists>t acc k. expand_to_ingredients ov limit cb nm 1 [] 0 = (Inr t, acc, k)
            \<and> \<not> long_int (summary_json nm t acc)
            \<and> summary ov limit cb (Some nm) = ((Json (summary_json nm t acc), 200), cb)))"
proof (cases "str_strip nm = []")
  case True
  then show ?thesis by (simp add: summary_inline)
next
  case nb: False
  then have ne: "nm \<noteq> []" by (auto simp: str_strip_Nil)
  show ?thesis
  proof (cases "cb nm")
    case None
    then show ?thesis by (simp add: summary_inline)
  next
    case (Some entry)
    show ?thesis
    proof (cases entry)
      case (CookbookEntry n)
      with Some show ?thesis by (simp add: summary_inline)
    next
      case (Ingredient n c)
      with Some show ?thesis by (simp add: summary_inline)
    next
      case (Recipe n items)
      obtain res acc k where r: "expand_to_ingredients ov limit cb nm 1 [] 0 = (res, acc, k)"
        by (cases "expand_to_ingredients ov limit cb nm 1 [] 0")
      show ?thesis
      proof (cases res)
        case (Inl e)
        with Some Recipe r show ?thesis by (simp add: summary_inline)
      next
        case (Inr t)
        show ?thesis
        proof (cases "long_int (summary_json nm t acc)")
          case True
          with Some Recipe r Inr show ?thesis by (simp add: summary_inline jsonify_def)
        next
          case False
          with Some Recipe r Inr nb ne
          have "summary ov limit cb (Some nm) = ((Json (summary_json nm t acc), 200), cb)"
            by (simp add: summary_inline jsonify_def)
          with False nb Some Recipe r Inr show ?thesis by simp
        qed
      qed
    qed
  qed
qed

lemma ok_not_bad: "((Json j, 200), cb) \<noteq> (bad_request, cb')"
  by (simp add: bad_request_def)

text \<open>
  C3, as amended. In any cookbook, a name that is missing or resolves to an ingredient,
  and a recipe that requires, directly or through other recipes, a name that is absent,
  are answered 400 with an empty body, and the expander of such a recipe ends in an
  exception whatever its arguments. In a cookbook built by entry creation these are the
  causes of a 400 together with two more, and there is no other: the interpreter's
  RecursionError during the expansion (as for the recipe of \<open>self_loop\<close>, which is a recipe
  with its one reference present), and a number of the result too long for
  \<^verbatim>\<open>jsonify\<close>.
\<close>

theorem expansion_fails_exactly:
  "(cb nm = None \<or> (\<exists>n ct. cb nm = Some (Ingredient n ct))
      \<or> (\<exists>x. requires cb nm x \<and> cb x = None)
     \<longrightarrow> summary overhead limit cb (Some nm) = (bad_request, cb))
   \<and> ((\<exists>x. requires cb nm x \<and> cb x = None)
     \<longrightarrow> (\<exists>e. fst (expand_to_ingredients overhead limit cb nm m acc clk) = Inl e))
   \<and> (reachable cb
     \<longrightarrow> (summary overhead limit cb (Some nm) = (bad_request, cb)) =
         (cb nm = None \<or> (\<exists>n ct. cb nm = Some (Ingredient n ct))
          \<or> (\<exists>x. requires cb nm x \<and> cb x = None)
          \<or> fst (expand_to_ingredients overhead limit cb nm 1 [] 0) = Inl RecursionError
          \<or> (\<exists>t. fst (expand_to_ingredients overhead limit cb nm 1 [] 0) = Inr t
                \<and> long_int (summary_json nm t
                     (fst (snd (expand_to_ingredients overhead limit cb nm 1 [] 0)))))))"
proof (intro conjI impI)
  assume v: "cb nm = None \<or> (\<exists>n ct. cb nm = Some (Ingredient n ct))
      \<or> (\<exists>x. requires cb nm x \<and> cb x = None)"
  show "summary overhead limit cb (Some nm) = (bad_request, cb)"
  proof (cases "\<exists>x. requires cb nm x \<and> cb x = None")
    case True
    then obtain x where "requires cb nm x" "cb x = None" by blast
    then have "expand_to_ingredients overhead limit cb nm 1 [] 0 \<noteq> (Inr t, acc', clk')"
      for t acc' clk' by (rule missing_never_succeeds)
    then show ?thesis by (rule summary_fails)
  next
    case False
    with v have "cb nm = None \<or> (\<exists>n ct. cb nm = Some (Ingredient n ct))" by simp
    then show ?thesis by (auto simp: summary_inline)
  qed
next
  assume "\<exists>x. requires cb nm x \<and> cb x = None"
  then obtain x where "requires cb nm x" "cb x = None" by blast
  then have "expand_to_ingredients overhead limit cb nm m acc clk \<noteq> (Inr t, acc', clk')"
    for t acc' clk' by (rule missing_never_succeeds)
  then have "\<exists>e acc' clk'. expand_to_ingredients overhead limit cb nm m acc clk = (Inl e, acc', clk')"
    by (rule expand_fails)
  then show "\<exists>e. fst (expand_to_ingredients overhead limit cb nm m acc clk) = Inl e"
    by auto
next
  assume reach: "reachable cb"
  let ?run = "expand_to_ingredients overhead limit cb nm 1 [] 0"
  let ?causes = "cb nm = None \<or> (\<exists>n ct. cb nm = Some (Ingredient n ct))
          \<or> (\<exists>x. requires cb nm x \<and> cb x = None)
          \<or> fst ?run = Inl RecursionError
          \<or> (\<exists>t. fst ?run = Inr t \<and> long_int (summary_json nm t (fst (snd ?run))))"
  show "(summary overhead limit cb (Some nm) = (bad_request, cb)) = ?causes"
  proof
    assume bad: "summary overhead limit cb (Some nm) = (bad_request, cb)"
    show ?causes
    proof (cases "cb nm")
      case None
      then show ?thesis by simp
    next
      case (Some entry)
      from reachable_entries [OF reach Some]
      have nb: "str_strip nm \<noteq> []"
        and ty: "(\<exists>ct. entry = Ingredient nm ct) \<or> (\<exists>items. entry = Recipe nm items)"
        by auto
      from ty show ?thesis
      proof
        assume "\<exists>ct. entry = Ingredient nm ct"
        with Some show ?thesis by auto
      next
        assume "\<exists>items. entry = Recipe nm items"
        then obtain items where rec: "cb nm = Some (Recipe nm items)" using Some by auto
        obtain res acc k where r: "?run = (res, acc, k)" by (cases ?run)
        show ?thesis
        proof (cases res)
          case (Inr t)
          have "long_int (summary_json nm t acc)"
          proof (rule ccontr)
            assume "\<not> long_int (summary_json nm t acc)"
            with nb rec r Inr
            have "summary overhead limit cb (Some nm) = ((Json (summary_json nm t acc), 200), cb)"
              by (intro summary_ok) simp_all
            with bad show False by (simp add: bad_request_def)
          qed
          with r Inr show ?thesis by simp
        next
          case (Inl e)
          show ?thesis
          proof (cases e)
            case RecursionError
            with r Inl show ?thesis by simp
          next
            case (KeyError s)
            with r Inl have "fst ?run = Inl (KeyError s)" by simp
            from keyerror_missing [OF this] Some
            show ?thesis by simp
          next
            case (ValueError s)
            have "cb k \<noteq> Some (CookbookEntry n)" for k n
              using reachable_entries [OF reach, of k "CookbookEntry n"] by auto
            from expand_no_unknown_type(1) [of cb overhead limit nm 1 "[]" 0 s, OF this]
              r Inl ValueError
            show ?thesis by simp
          qed
        qed
      qed
    qed
  next
    assume c: ?causes
    show "summary overhead limit cb (Some nm) = (bad_request, cb)"
    proof (rule ccontr)
      assume nbad: "summary overhead limit cb (Some nm) \<noteq> (bad_request, cb)"
      with summary_cases [of overhead limit cb nm]
      obtain n items t acc k where rec: "cb nm = Some (Recipe n items)"
        and r: "?run = (Inr t, acc, k)" and short: "\<not> long_int (summary_json nm t acc)"
        by blast
      from c rec r short have "\<exists>x. requires cb nm x \<and> cb x = None" by auto
      then obtain x where "requires cb nm x" "cb x = None" by blast
      from missing_never_succeeds [OF this, of overhead limit 1 "[]" 0 t acc k] r
      show False by simp
    qed
  qed
qed

lemma str_strip_R: "str_strip (ustr ''R'') = ustr ''R''"
  by (simp add: str_strip_def ustr_def str_isspace_def)

lemma rsi_cookbook_at:
  "rsi_cookbook (ustr ''R'') = Some (Recipe (ustr ''R'') [\<lparr>name = ustr ''S'', quantity = 2\<rparr>])"
  "rsi_cookbook (ustr ''S'') = Some (Recipe (ustr ''S'') [\<lparr>name = ustr ''I'', quantity = 3\<rparr>])"
  "rsi_cookbook (ustr ''I'') = Some (Ingredient (ustr ''I'') 5)"
  by (simp_all add: rsi_cookbook_def ustr_def)

lemma rsi_fits:
  assumes "cb r = Some (Recipe nr [\<lparr>name = s, quantity = 2\<rparr>])"
    and "cb s = Some (Recipe ns [\<lparr>name = i, quantity = 3\<rparr>])"
    and "cb i = Some (Ingredient i 5)"
  shows "fits 3 cb r" and "leaf_paths 3 cb r = [([2, 3], i, 5)]"
  using assms by (simp_all add: numeral_3_eq_3)

lemma rsi_expand:
  assumes "cb r = Some (Recipe nr [\<lparr>name = s, quantity = 2\<rparr>])"
    and "cb s = Some (Recipe ns [\<lparr>name = i, quantity = 3\<rparr>])"
    and "cb i = Some (Ingredient i 5)"
    and "\<forall>k. ov k \<le> B" "3 + B \<le> limit"
  shows "\<exists>clk'. expand_to_ingredients ov limit cb r 1 [] clk = (Inr 30, [(i, 6)], clk')"
proof -
  from expand_fits [OF assms(4) rsi_fits(1) [OF assms(1-3)] assms(5), of 1 "[]" clk]
  show ?thesis
    by (simp add: rsi_fits(2) [OF assms(1-3)] path_time_def path_add_def)
qed

lemma rsi_short: "\<not> long_int (summary_json r 30 [(i, 6)])"
  by (simp add: long_int_summary_json too_long_small)

text \<open>
  C2. Expansion is linear-multiplicative. In every cookbook where R is a recipe
  requiring 2 of S, S a recipe requiring 3 of I, and I an ingredient with cook time 5,
  expanding R gives cook time 30 and the ingredient map with the one item I: 6, once the
  counter has room for the three frames and for the calls they make; summary answers
  with exactly that when R is not blank. In general, when the graph below a name fits
  in \<open>d\<close> entries and the counter has that room, the expansion returns, whatever the
  multiplier and the accumulator it is given: the total is the sum over the paths to the
  leaves of cook time times multiplier times the product of the quantities along the
  path; the quantity under each name has grown by the sum of multiplier times that
  product over the leaves of that name; the names are in first-seen order; and from an
  empty accumulator the result is exactly that list.
\<close>

theorem linear_multiplicative:
  "(cb r = Some (Recipe nr [\<lparr>name = s, quantity = 2\<rparr>])
      \<and> cb s = Some (Recipe ns [\<lparr>name = i, quantity = 3\<rparr>])
      \<and> cb i = Some (Ingredient i 5) \<and> (\<forall>k. overhead k \<le> B) \<and> 3 + B \<le> limit
    \<longrightarrow> fst (expand_to_ingredients overhead limit cb r 1 [] clk) = Inr 30
        \<and> fst (snd (expand_to_ingredients overhead limit cb r 1 [] clk)) = [(i, 6)]
        \<and> (str_strip r \<noteq> [] \<longrightarrow>
             summary overhead limit cb (Some r) =
               ((Json (JObj [(ustr ''name'', JStr r), (ustr ''cookTime'', JInt 30),
                   (ustr ''ingredients'',
                    JList [JObj [(ustr ''name'', JStr i), (ustr ''quantity'', JInt 6)]])]), 200),
                cb)))
   \<and> (fits d cb a \<and> (\<forall>k. overhead k \<le> B) \<and> d + B \<le> limit
    \<longrightarrow> fst (expand_to_ingredients overhead limit cb a m acc clk)
          = Inr (sum_list (map (\<lambda>(qs, nm, cook_time). cook_time * (m * prod_list qs))
                               (leaf_paths d cb a)))
        \<and> (\<forall>k. acc_get (fst (snd (expand_to_ingredients overhead limit cb a m acc clk))) k
                = acc_get acc k + leaf_quantity m (leaf_paths d cb a) k)
        \<and> map fst (fst (snd (expand_to_ingredients overhead limit cb a m acc clk)))
            = first_seen (map fst acc) (leaf_names (leaf_paths d cb a))
        \<and> (acc = [] \<longrightarrow>
             fst (snd (expand_to_ingredients overhead limit cb a m acc clk))
               = map (\<lambda>k. (k, leaf_quantity m (leaf_paths d cb a) k))
                     (first_seen [] (leaf_names (leaf_paths d cb a)))))"
proof (intro conjI impI allI)
  assume h: "cb r = Some (Recipe nr [\<lparr>name = s, quantity = 2\<rparr>])
      \<and> cb s = Some (Recipe ns [\<lparr>name = i, quantity = 3\<rparr>])
      \<and> cb i = Some (Ingredient i 5) \<and> (\<forall>k. overhead k \<le> B) \<and> 3 + B \<le> limit"
  then have e: "\<exists>clk'. expand_to_ingredients overhead limit cb r 1 [] c = (Inr 30, [(i, 6)], clk')"
    for c by (intro rsi_expand) auto
  from e [of clk] show "fst (expand_to_ingredients overhead limit cb r 1 [] clk) = Inr 30"
    and "fst (snd (expand_to_ingredients overhead limit cb r 1 [] clk)) = [(i, 6)]"
    by auto
  assume nb: "str_strip r \<noteq> []"
  from e [of 0] obtain k where "expand_to_ingredients overhead limit cb r 1 [] 0 = (Inr 30, [(i, 6)], k)"
    by blast
  with nb h have "summary overhead limit cb (Some r) = ((Json (summary_json r 30 [(i, 6)]), 200), cb)"
    by (intro summary_ok [where n = nr]) (simp_all add: rsi_short)
  then show "summary overhead limit cb (Some r) =
               ((Json (JObj [(ustr ''name'', JStr r), (ustr ''cookTime'', JInt 30),
                   (ustr ''ingredients'',
                    JList [JObj [(ustr ''name'', JStr i), (ustr ''quantity'', JInt 6)]])]), 200),
                cb)"
    by (simp add: summary_json_def)
next
  assume h: "fits d cb a \<and> (\<forall>k. overhead k \<le> B) \<and> d + B \<le> limit"
  then obtain clk' where e: "expand_to_ingredients overhead limit cb a m acc clk =
        (Inr (sum_list (map (path_time m) (leaf_paths d cb a))),
         foldl (path_add m) acc (leaf_paths d cb a), clk')"
    using expand_fits [of overhead B d cb a limit m acc clk] by auto
  have pt: "path_time m = (\<lambda>(qs, nm, cook_time). cook_time * (m * prod_list qs))"
    by (simp add: path_time_def)
  from e show "fst (expand_to_ingredients overhead limit cb a m acc clk)
          = Inr (sum_list (map (\<lambda>(qs, nm, cook_time). cook_time * (m * prod_list qs))
                               (leaf_paths d cb a)))"
    by (simp add: pt)
  from e show "acc_get (fst (snd (expand_to_ingredients overhead limit cb a m acc clk))) k
                = acc_get acc k + leaf_quantity m (leaf_paths d cb a) k" for k
    by (simp add: acc_get_foldl_path_add)
  from e show "map fst (fst (snd (expand_to_ingredients overhead limit cb a m acc clk)))
            = first_seen (map fst acc) (leaf_names (leaf_paths d cb a))"
    by (simp add: keys_foldl_path_add)
  assume "acc = []"
  with e show "fst (snd (expand_to_ingredients overhead limit cb a m acc clk))
               = map (\<lambda>k. (k, leaf_quantity m (leaf_paths d cb a) k))
                     (first_seen [] (leaf_names (leaf_paths d cb a)))"
    by (simp add: acc_closed_form)
qed

theorem linear_multiplicative_witness:
  "fst (expand_to_ingredients cold 1000 rsi_cookbook (ustr ''R'') 1 [] 0) = Inr 30
   \<and> fst (snd (expand_to_ingredients cold 1000 rsi_cookbook (ustr ''R'') 1 [] 0)) = [(ustr ''I'', 6)]
   \<and> summary cold 1000 rsi_cookbook (Some (ustr ''R'')) =
       ((Json (JObj [(ustr ''name'', JStr (ustr ''R'')), (ustr ''cookTime'', JInt 30),
           (ustr ''ingredients'',
            JList [JObj [(ustr ''name'', JStr (ustr ''I'')), (ustr ''quantity'', JInt 6)]])]), 200),
        rsi_cookbook)
   \<and> fits 3 rsi_cookbook (ustr ''R'')
   \<and> leaf_paths 3 rsi_cookbook (ustr ''R'') = [([2, 3], ustr ''I'', 5)]
   \<and> acc_get (fst (snd (expand_to_ingredients cold 1000 rsi_cookbook (ustr ''R'') 1 [] 0)))
        (ustr ''I'') = 6"
proof -
  have f: "fits 3 rsi_cookbook (ustr ''R'')"
    and lp: "leaf_paths 3 rsi_cookbook (ustr ''R'') = [([2, 3], ustr ''I'', 5)]"
    by (simp_all add: numeral_3_eq_3 rsi_cookbook_at)
  have c: "\<forall>k. cold k \<le> 1" by (simp add: cold_def)
  have ne: "str_strip (ustr ''R'') \<noteq> []"
    by (simp add: str_strip_R) (simp add: ustr_def)
  have lq: "leaf_quantity 1 [([2, 3], ustr ''I'', 5)] (ustr ''I'') = 6"
    by (simp add: leaf_quantity_def)
  note th = linear_multiplicative [of rsi_cookbook "ustr ''R''" "ustr ''R''" "ustr ''S''"
      "ustr ''S''" "ustr ''I''" cold 1 1000 0 3 "ustr ''R''" 1 "[]"]
  from th f lp c ne lq show ?thesis
    by (simp add: rsi_cookbook_at acc_get_def)
qed

lemma create_self_loop_recipe:
  "create_entry Map.empty self_loop_recipe = ((Json (JObj []), 200), self_loop)"
  by (simp add: create_entry_unfold submitted_entry_def create_from_def self_loop_recipe_def
      self_loop_def ustr_def str_strip_def str_isspace_def)

lemma reachable_self_loop: "reachable self_loop"
  using reachable.created [OF reachable.initial create_self_loop_recipe] .

lemma create_missing_ref:
  "create_entry Map.empty missing_ref_recipe =
     ((Json (JObj []), 200),
      [ustr ''R'' \<mapsto> Recipe (ustr ''R'')
        [\<lparr>name = ustr ''I'', quantity = 2\<rparr>, \<lparr>name = ustr ''X'', quantity = 1\<rparr>]])"
  "create_entry
     [ustr ''R'' \<mapsto> Recipe (ustr ''R'')
        [\<lparr>name = ustr ''I'', quantity = 2\<rparr>, \<lparr>name = ustr ''X'', quantity = 1\<rparr>]]
     ingredient_I = ((Json (JObj []), 200), missing_ref)"
  by (simp_all add: create_entry_unfold submitted_entry_def create_from_def missing_ref_recipe_def
      ingredient_I_def missing_ref_def ustr_def str_strip_def str_isspace_def)

lemma reachable_missing_ref: "reachable missing_ref"
  using reachable.created [OF reachable.created [OF reachable.initial create_missing_ref(1)]
      create_missing_ref(2)] .

lemma missing_ref_at:
  "missing_ref (ustr ''R'') = Some (Recipe (ustr ''R'')
        [\<lparr>name = ustr ''I'', quantity = 2\<rparr>, \<lparr>name = ustr ''X'', quantity = 1\<rparr>])"
  "missing_ref (ustr ''I'') = Some (Ingredient (ustr ''I'') 5)"
  "missing_ref (ustr ''X'') = None"
  by (simp_all add: missing_ref_def ustr_def)

lemma missing_ref_requires: "requires missing_ref (ustr ''R'') (ustr ''X'')"
  using requires.direct [of missing_ref "ustr ''R''" "ustr ''R''"
      "[\<lparr>name = ustr ''I'', quantity = 2\<rparr>, \<lparr>name = ustr ''X'', quantity = 1\<rparr>]"
      "\<lparr>name = ustr ''X'', quantity = 1\<rparr>"]
  by (simp add: missing_ref_at)

lemma expand_second_missing:
  assumes "cb r = Some (Recipe nm [req1, req2])" "cb (name req1) = Some (Ingredient n1 ct)"
    and "cb (name req2) = None" and "\<forall>k. ov k \<le> B" "B \<le> d"
  shows "expand_to_ingredients ov (Suc (Suc d)) cb r m acc clk
      = (Inl (KeyError ''missing entry''), acc_add n1 (m * quantity req1) acc, clk + 7)"
proof -
  have "\<not> call_raises ov d k" "\<not> call_raises ov (Suc d) k" for k
    using no_raise [OF assms(4,5), of k] no_raise [OF assms(4), of "Suc d" k] assms(5)
    by simp_all
  with assms(1-3) show ?thesis by simp
qed

theorem expansion_fails_exactly_witness:
  "reachable missing_ref
   \<and> summary cold 1000 missing_ref (Some (ustr ''X'')) = (bad_request, missing_ref)
   \<and> summary cold 1000 missing_ref (Some (ustr ''I'')) = (bad_request, missing_ref)
   \<and> summary cold 1000 missing_ref (Some (ustr ''R'')) = (bad_request, missing_ref)
   \<and> expand_to_ingredients cold 1000 missing_ref (ustr ''R'') 1 [] 0
       = (Inl (KeyError ''missing entry''), [(ustr ''I'', 2)], 7)"
proof -
  have ex: "expand_to_ingredients cold (Suc (Suc 998)) missing_ref (ustr ''R'') 1 [] 0
       = (Inl (KeyError ''missing entry''), acc_add (ustr ''I'') (1 * 2) [], 0 + 7)"
    using expand_second_missing [where B = 1 and ct = 5 and ov = cold and d = 998
          and cb = missing_ref and r = "ustr ''R''" and ?n1.0 = "ustr ''I''"
          and ?req1.0 = "\<lparr>name = ustr ''I'', quantity = 2\<rparr>"
          and ?req2.0 = "\<lparr>name = ustr ''X'', quantity = 1\<rparr>", of "ustr ''R''" 1 "[]" 0]
    by (simp add: missing_ref_at cold_def)
  have n: "Suc (Suc 998) = 1000" by simp
  from expansion_fails_exactly [of missing_ref "ustr ''X''" cold 1000 1 "[]" 0]
    expansion_fails_exactly [of missing_ref "ustr ''I''" cold 1000 1 "[]" 0]
    expansion_fails_exactly [of missing_ref "ustr ''R''" cold 1000 1 "[]" 0]
    missing_ref_requires reachable_missing_ref ex n
  show ?thesis by (auto simp: missing_ref_at)
qed

theorem expansion_fails_exactly_counterexample:
  "reachable self_loop
   \<and> self_loop (ustr ''R'') = Some (Recipe (ustr ''R'') [\<lparr>name = ustr ''R'', quantity = 1\<rparr>])
   \<and> summary cold 1000 self_loop (Some (ustr ''R'')) = (bad_request, self_loop)
   \<and> summary warm 1000 self_loop (Some (ustr ''R'')) = (bad_request, self_loop)"
proof -
  have "summary ov 1000 self_loop (Some (ustr ''R'')) = (bad_request, self_loop)" for ov
    using cycle_never_succeeds [OF self_loop_cycle] by (intro summary_fails) simp
  with reachable_self_loop show ?thesis by (simp add: self_loop_at)
qed








end
